theory Spec2Isabelle
  imports Complex_Main "HOL-Library.Char_ord" "HOL-Library.List_Lexorder" "HOL-Library.Multiset"
begin

section \<open>Binary64 arithmetic\<close>

text \<open>
  A Python float is a binary64 number and is represented by the real it denotes; infinities
  and NaN are not represented. Comparison, \<open>min\<close> and \<open>max\<close> of floats are exact. The product
  and the sum of two floats are the exact result rounded to the nearest binary64 number,
  ties to the even significand: \<open>round64\<close>. A number in the binade \<open>[2^e, 2^(e+1))\<close> is rounded
  to a multiple of \<open>2^(e-52)\<close>, and below \<open>2^(-1022)\<close> to a multiple of \<open>2^(-1074)\<close>. Results
  beyond the largest float (overflow) are not modelled.
\<close>

definition pow2 :: "int \<Rightarrow> real" where
  "pow2 k = (if 0 \<le> k then 2 ^ nat k else 1 / 2 ^ nat (- k))"

definition round_even :: "real \<Rightarrow> int" where
  \<comment> \<open>the nearest integer, the even one of two equally near\<close>
  "round_even y =
     (let f = \<lfloor>y\<rfloor>; d = y - of_int f
      in if d < 1/2 then f else if 1/2 < d then f + 1 else if even f then f else f + 1)"

fun binade :: "nat \<Rightarrow> real \<Rightarrow> int" where
  \<comment> \<open>the exponent \<open>e\<close> with \<open>2^e \<le> x < 2^(e+1)\<close>, searched over at most \<open>n\<close> doublings or
      halvings\<close>
  "binade 0 x = 0"
| "binade (Suc n) x =
     (if x < 1 then binade n (2 * x) - 1 else if 2 \<le> x then binade n (x / 2) + 1 else 0)"

definition quantum :: "real \<Rightarrow> real" where
  "quantum x = pow2 (max (binade 1100 \<bar>x\<bar>) (- 1022) - 52)"

definition round64 :: "real \<Rightarrow> real" where
  "round64 x =
     (if x = 0 then 0 else sgn x * of_int (round_even (\<bar>x\<bar> / quantum x)) * quantum x)"

definition fmul :: "real \<Rightarrow> real \<Rightarrow> real" where
  \<comment> \<open>\<open>a * b\<close> on floats\<close>
  "fmul a b = round64 (a * b)"

definition fadd :: "real \<Rightarrow> real \<Rightarrow> real" where
  \<comment> \<open>\<open>a + b\<close> on floats\<close>
  "fadd a b = round64 (a + b)"

text \<open>The floats that the literals \<open>0.9\<close> and \<open>0.1\<close> denote.\<close>

definition float_0_9 :: real where
  "float_0_9 = 8106479329266893 / 2 ^ 53"

definition float_0_1 :: real where
  "float_0_1 = 3602879701896397 / 2 ^ 55"

section \<open>Personality engine (personality.py)\<close>

text \<open>
  A \<open>datetime\<close> is an abstract instant; the wall clock is a sequence of readings: the \<open>k\<close>-th
  call of \<open>datetime.now()\<close> made by the program returns \<open>clk k\<close>, and every function that reads
  the clock takes the number of readings made so far and returns the new number.
\<close>

type_synonym datetime = nat
type_synonym clock = "nat \<Rightarrow> datetime"

record PersonalityTrait =
  name :: string
  value' :: real
  history :: "(real \<times> datetime) list"

text \<open>
  \<open>Personality.traits\<close> is a dict: an association list in insertion order whose keys are
  pairwise distinct. \<open>dict_get\<close> is \<open>d.get(k)\<close>, \<open>dict_set\<close> is \<open>d[k] = v\<close>.
\<close>

type_synonym ('k, 'v) dict = "('k \<times> 'v) list"

definition dict_get :: "('k, 'v) dict \<Rightarrow> 'k \<Rightarrow> 'v option" where
  "dict_get d k = map_of d k"

fun dict_set :: "('k, 'v) dict \<Rightarrow> 'k \<Rightarrow> 'v \<Rightarrow> ('k, 'v) dict" where
  "dict_set [] k v = [(k, v)]"
| "dict_set ((k', v') # d) k v = (if k' = k then (k, v) # d else (k', v') # dict_set d k v)"

record Personality =
  traits :: "(string, PersonalityTrait) dict"
  last_updated :: datetime

text \<open>
  \<open>PersonalityTrait.update(new_value, timestamp=None)\<close>:
  \<^verbatim>\<open>self.value = max(0.0, min(1.0, new_value))\<close>, then one history entry with the stored value
  and \<^verbatim>\<open>timestamp or datetime.now()\<close>.
\<close>

definition trait_update ::
  "PersonalityTrait \<Rightarrow> real \<Rightarrow> datetime option \<Rightarrow> clock \<Rightarrow> nat \<Rightarrow> PersonalityTrait \<times> nat" where
  "trait_update tr new_value timestamp clk k =
     (let v = max 0 (min 1 new_value);
          (ts, k') = (case timestamp of Some t \<Rightarrow> (t, k) | None \<Rightarrow> (clk k, Suc k))
      in (tr\<lparr>value' := v, history := history tr @ [(v, ts)]\<rparr>, k'))"

text \<open>
  \<open>Personality.update_trait(name, new_value)\<close>: nothing happens for a name that is not a key;
  otherwise the trait is updated (first clock reading) and \<open>last_updated\<close> is set to a
  second clock reading.
\<close>

definition update_trait ::
  "Personality \<Rightarrow> string \<Rightarrow> real \<Rightarrow> clock \<Rightarrow> nat \<Rightarrow> Personality \<times> nat" where
  "update_trait p nm new_value clk k =
     (case dict_get (traits p) nm of
        None \<Rightarrow> (p, k)
      | Some tr \<Rightarrow>
          (let (tr', k1) = trait_update tr new_value None clk k
           in (p\<lparr>traits := dict_set (traits p) nm tr', last_updated := clk k1\<rparr>, Suc k1)))"

text \<open>
  \<open>Personality.evolve(interaction_context)\<close>: the loop over \<open>self.traits.items()\<close>. The
  trait objects are the ones stored in the dict, so \<open>trait.value\<close> is read from the current
  state under the key being visited.
\<close>

fun evolve_loop ::
  "string list \<Rightarrow> (string \<rightharpoonup> real) \<Rightarrow> clock \<Rightarrow> Personality \<times> nat \<Rightarrow> Personality \<times> nat" where
  "evolve_loop [] ctx clk s = s"
| "evolve_loop (trait_name # rest) ctx clk (p, k) =
     (case (ctx trait_name, dict_get (traits p) trait_name) of
        (Some context_value, Some trait) \<Rightarrow>
          (let current_value = value' trait;
               new_value = fadd (fmul current_value float_0_9) (fmul context_value float_0_1)
           in evolve_loop rest ctx clk (update_trait p trait_name new_value clk k))
      | _ \<Rightarrow> evolve_loop rest ctx clk (p, k))"

definition evolve ::
  "Personality \<Rightarrow> (string \<rightharpoonup> real) \<Rightarrow> clock \<Rightarrow> nat \<Rightarrow> Personality \<times> nat" where
  "evolve p interaction_context clk k =
     evolve_loop (map fst (traits p)) interaction_context clk (p, k)"

text \<open>Calling \<open>evolve\<close> \<open>n\<close> times in a row with the same context.\<close>

fun evolve_iter ::
  "nat \<Rightarrow> (string \<rightharpoonup> real) \<Rightarrow> clock \<Rightarrow> Personality \<times> nat \<Rightarrow> Personality \<times> nat" where
  "evolve_iter 0 ctx clk s = s"
| "evolve_iter (Suc n) ctx clk s =
     (case evolve_iter n ctx clk s of (p, k) \<Rightarrow> evolve p ctx clk k)"

text \<open>The value stored under a trait name, if any.\<close>

definition trait_value :: "Personality \<Rightarrow> string \<Rightarrow> real option" where
  "trait_value p nm = map_option value' (dict_get (traits p) nm)"


section \<open>Python sequences and strings\<close>

text \<open>
  Slices with an integer bound, as Python computes them: a negative bound counts from the
  end of the list, and a bound beyond either end is cut to it.
\<close>

definition slice_to :: "'a list \<Rightarrow> int \<Rightarrow> 'a list" where
  \<comment> \<open>\<open>xs[:n]\<close>\<close>
  "slice_to xs n = (if 0 \<le> n then take (nat n) xs else take (length xs - nat (- n)) xs)"

definition slice_from :: "'a list \<Rightarrow> int \<Rightarrow> 'a list" where
  \<comment> \<open>\<open>xs[n:]\<close>\<close>
  "slice_from xs n = (if 0 \<le> n then drop (nat n) xs else drop (length xs - nat (- n)) xs)"

text \<open>
  A string is a list of characters, each a code point below 256 (Latin-1). \<open>is_space\<close> is
  \<open>str.isspace\<close> on these: tab, line feed, vertical tab, form feed, carriage return, the four
  separators \<open>0x1c\<close> to \<open>0x1f\<close>, the blank, next line \<open>0x85\<close> and the no-break space \<open>0xa0\<close>.
  \<open>lower\<close> is \<open>str.lower\<close> on these: the letters \<open>A\<close> to \<open>Z\<close> and the capitals \<open>0xc0\<close> to \<open>0xde\<close>
  other than the multiplication sign \<open>0xd7\<close> are moved up by 32.
\<close>

definition is_space :: "char \<Rightarrow> bool" where
  "is_space c =
     (let n = (of_char c :: nat)
      in (9 \<le> n \<and> n \<le> 13) \<or> (28 \<le> n \<and> n \<le> 32) \<or> n = 133 \<or> n = 160)"

definition strip :: "string \<Rightarrow> string" where
  "strip s = rev (dropWhile is_space (rev (dropWhile is_space s)))"

definition lower_char :: "char \<Rightarrow> char" where
  \<comment> \<open>a capital has bit 5 clear; setting it adds 32 to the code\<close>
  "lower_char c =
     (let n = (of_char c :: nat) in
      if (65 \<le> n \<and> n \<le> 90) \<or> (192 \<le> n \<and> n \<le> 222 \<and> n \<noteq> 215)
      then (case c of Char b0 b1 b2 b3 b4 b5 b6 b7 \<Rightarrow> Char b0 b1 b2 b3 b4 True b6 b7)
      else c)"

definition lower :: "string \<Rightarrow> string" where
  "lower s = map lower_char s"

definition startswith :: "string \<Rightarrow> string \<Rightarrow> bool" where
  "startswith s p = (take (length p) s = p)"

definition endswith :: "string \<Rightarrow> string \<Rightarrow> bool" where
  "endswith s p = (length p \<le> length s \<and> drop (length s - length p) s = p)"

fun contains :: "string \<Rightarrow> string \<Rightarrow> bool" where
  \<comment> \<open>\<open>w in s\<close>\<close>
  "contains [] w = (w = [])"
| "contains (c # cs) w = (take (length w) (c # cs) = w \<or> contains cs w)"

fun split_lines :: "string \<Rightarrow> string list" where
  \<comment> \<open>\<open>s.split("\n")\<close>: never empty, one more piece than there are line feeds\<close>
  "split_lines [] = [[]]"
| "split_lines (c # cs) =
     (if c = CHR 0x0A then [] # split_lines cs
      else (case split_lines cs of [] \<Rightarrow> [[c]] | l # ls \<Rightarrow> (c # l) # ls))"

text \<open>
  \<open>s.replace(old, new)\<close> replaces the occurrences of \<open>old\<close> from left to right without
  overlap; an empty \<open>old\<close> matches before every character and at the end.
\<close>

function replace_scan :: "string \<Rightarrow> string \<Rightarrow> string \<Rightarrow> string" where
  "replace_scan [] old new = []"
| "replace_scan (c # cs) old new =
     (if old \<noteq> [] \<and> take (length old) (c # cs) = old
      then new @ replace_scan (drop (length old) (c # cs)) old new
      else c # replace_scan cs old new)"
  by pat_completeness auto
termination
  by (relation "measure (\<lambda>(s, old, new). length s)") (auto simp: neq_Nil_conv)

definition replace :: "string \<Rightarrow> string \<Rightarrow> string \<Rightarrow> string" where
  "replace s old new =
     (if old = [] then new @ concat (map (\<lambda>c. c # new) s) else replace_scan s old new)"


section \<open>Response generator (response_generator.py)\<close>

text \<open>
  \<open>config["personality"]["response_style"]\<close> with its three thresholds, and the trait
  mapping passed to the generator (only \<open>.get(name, 0.5)\<close> is used on it).
\<close>

record response_style =
  formality_level :: real
  enthusiasm_level :: real
  politeness_level :: real

definition get_or :: "(string \<rightharpoonup> real) \<Rightarrow> string \<Rightarrow> real \<Rightarrow> real" where
  \<comment> \<open>\<open>d.get(k, default)\<close>\<close>
  "get_or d k dflt = (case d k of None \<Rightarrow> dflt | Some v \<Rightarrow> v)"

text \<open>\<open>ResponseGenerator._adjust_response_style\<close>: three rules, in this order.\<close>

definition adjust_formality :: "string \<Rightarrow> string" where
  "adjust_formality response =
     replace (replace (replace (replace response ''gonna'' ''going to'')
       ''wanna'' ''want to'') ''yeah'' ''yes'') ''nope'' ''no''"

definition adjust_enthusiasm :: "string \<Rightarrow> string" where
  "adjust_enthusiasm response =
     (let r = replace (replace response ''.'' ''!'') ''!'' ''!!''
      in if \<not> endswith r ''!'' then r @ ''!'' else r)"

definition adjust_politeness :: "string \<Rightarrow> string" where
  "adjust_politeness response =
     (let r = ''I think '' @ lower response
      in if \<not> list_ex (contains (lower r)) [''please'', ''thank'', ''appreciate'']
         then r @ '' Thank you for asking!'' else r)"

definition adjust_response_style ::
  "response_style \<Rightarrow> string \<Rightarrow> (string \<rightharpoonup> real) \<Rightarrow> string" where
  "adjust_response_style style_config response personality_traits =
     (let r1 = (if get_or personality_traits ''conscientiousness'' 0.5 > formality_level style_config
                then adjust_formality response else response);
          r2 = (if get_or personality_traits ''extraversion'' 0.5 > enthusiasm_level style_config
                then adjust_enthusiasm r1 else r1);
          r3 = (if get_or personality_traits ''agreeableness'' 0.5 > politeness_level style_config
                then adjust_politeness r2 else r2)
      in r3)"

text \<open>
  The section parser, written twice in the source with the same text: the tail of
  \<open>ResponseGenerator.analyze_interaction\<close> and
  \<open>DigitalTwinInteraction._parse_reflection_sections\<close>. The loop state is
  \<open>(sections, current_section, current_items)\<close>; \<open>if current_section:\<close> is Python truth, false
  for \<open>None\<close> and for the empty string.
\<close>

type_synonym sections = "string \<rightharpoonup> string list"
type_synonym parse_state = "sections \<times> string option \<times> string list"

definition truthy :: "string option \<Rightarrow> bool" where
  "truthy s = (case s of None \<Rightarrow> False | Some t \<Rightarrow> t \<noteq> [])"

definition store_section :: "sections \<Rightarrow> string option \<Rightarrow> string list \<Rightarrow> sections" where
  \<comment> \<open>\<open>if current_section: sections[current_section] = current_items\<close>\<close>
  "store_section secs cur items =
     (case cur of None \<Rightarrow> secs | Some nm \<Rightarrow> if nm = [] then secs else secs(nm \<mapsto> items))"

definition parse_line :: "string \<Rightarrow> parse_state \<Rightarrow> parse_state" where
  "parse_line raw st =
     (case st of (secs, cur, items) \<Rightarrow>
        (let line = strip raw in
         if line = [] then (secs, cur, items)
         else if endswith line '':''
           then (store_section secs cur items, Some (lower (butlast line)), [])
         else if startswith line ''- ''
           then (secs, cur, items @ [drop 2 line])
         else (secs, cur, items)))"

definition parse_reflection_sections :: "string \<Rightarrow> sections" where
  "parse_reflection_sections reflection =
     (case fold parse_line (split_lines reflection) (Map.empty, None, []) of
        (secs, cur, items) \<Rightarrow> store_section secs cur items)"


text \<open>
  The parser as the specification words it, for comparison with the loop above: the state is
  the mapping built so far and the name of the open section. A line ending in a colon opens
  a new section under the lower-cased line without its colon, an item line is appended to
  the open section, anything else is skipped. A section whose name is empty is not recorded.
\<close>

definition words_line :: "string \<Rightarrow> sections \<times> string option \<Rightarrow> sections \<times> string option" where
  "words_line raw st =
     (case st of (secs, cur) \<Rightarrow>
        (let line = strip raw in
         if line = [] then (secs, cur)
         else if endswith line '':''
           then (let nm = lower (butlast line)
                 in if nm = [] then (secs, None) else (secs(nm \<mapsto> []), Some nm))
         else if startswith line ''- ''
           then (case cur of
                   None \<Rightarrow> (secs, cur)
                 | Some nm \<Rightarrow>
                     (secs(nm \<mapsto> (case secs nm of None \<Rightarrow> [] | Some its \<Rightarrow> its) @ [drop 2 line]),
                      cur))
         else (secs, cur)))"

definition sections_by_words :: "string \<Rightarrow> sections" where
  "sections_by_words text = fst (fold words_line (split_lines text) (Map.empty, None))"

section \<open>Memory engine (memory.py, class MemorySystem)\<close>

text \<open>
  A memory is the dict built by \<open>add_memory\<close>: content, type, embedding, timestamp (an ISO
  string, compared as Python compares strings: by code point, lexicographically) and an
  open metadata mapping. Metadata values are Python values: the JSON-native ones, tuples,
  and objects that \<open>json\<close> cannot serialise (a \<open>datetime\<close>, say), named by their \<open>repr\<close>.
\<close>

datatype pyval =
    PNone
  | PBool bool
  | PInt int
  | PFloat real
  | PStr string
  | PList "pyval list"
  | PTuple "pyval list"
  | PDict "(string \<times> pyval) list"
  | PObject string

record memory =
  content :: string
  type' :: string
  embedding :: "real list"
  timestamp :: string
  metadata :: "(string, pyval) dict"

datatype error = ProviderError | ValueError | TypeError | KeyError | AttributeError

text \<open>
  The file \<open>memories.json\<close> under \<open>memory_dir\<close>: absent, unparseable (what an interrupted
  \<open>json.dump\<close> leaves behind), or a JSON document, given by the list that \<open>json.load\<close> reads
  from it.
\<close>

datatype file_state = Absent | Corrupt | Document "memory list"

record MemorySystem =
  llm_embed :: "string \<Rightarrow> error + real list"
  max_memories :: int
  memories :: "memory list"
  memory_file :: file_state

text \<open>
  What \<open>json\<close> does to a value: \<open>json.dump\<close> raises \<open>TypeError\<close> on an object it cannot
  serialise, and writes a tuple as an array, which \<open>json.load\<close> reads back as a list.
\<close>

fun json_serializable :: "pyval \<Rightarrow> bool" where
  "json_serializable (PObject r) = False"
| "json_serializable (PList xs) = list_all json_serializable xs"
| "json_serializable (PTuple xs) = list_all json_serializable xs"
| "json_serializable (PDict kvs) = list_all json_serializable (map snd kvs)"
| "json_serializable v = True"

fun json_reload :: "pyval \<Rightarrow> pyval" where
  "json_reload (PList xs) = PList (map json_reload xs)"
| "json_reload (PTuple xs) = PList (map json_reload xs)"
| "json_reload (PDict kvs) = PDict (zip (map fst kvs) (map json_reload (map snd kvs)))"
| "json_reload v = v"

definition memory_serializable :: "memory \<Rightarrow> bool" where
  "memory_serializable m = list_all json_serializable (map snd (metadata m))"

definition memory_reload :: "memory \<Rightarrow> memory" where
  "memory_reload m =
     m\<lparr>metadata := zip (map fst (metadata m)) (map json_reload (map snd (metadata m)))\<rparr>"

definition save_memories :: "MemorySystem \<Rightarrow> MemorySystem" where
  \<comment> \<open>\<open>_save_memories\<close>: the exception of \<open>json.dump\<close> is logged and swallowed\<close>
  "save_memories ms =
     (if list_all memory_serializable (memories ms)
      then ms\<lparr>memory_file := Document (map memory_reload (memories ms))\<rparr>
      else ms\<lparr>memory_file := Corrupt\<rparr>)"

definition load_memories :: "MemorySystem \<Rightarrow> MemorySystem" where
  \<comment> \<open>\<open>_load_memories\<close>: nothing is read when the file does not exist; on an exception the
      collection is emptied\<close>
  "load_memories ms =
     (case memory_file ms of
        Absent \<Rightarrow> ms
      | Corrupt \<Rightarrow> ms\<lparr>memories := []\<rparr>
      | Document xs \<Rightarrow> ms\<lparr>memories := xs\<rparr>)"

text \<open>
  \<open>add_memory(content, memory_type, metadata)\<close>; \<open>now\<close> is the value of
  \<open>datetime.utcnow().isoformat()\<close> at the call. A failing \<open>llm.embed\<close> is logged and raised
  again before anything is changed.
\<close>

definition add_memory ::
  "MemorySystem \<Rightarrow> string \<Rightarrow> string \<Rightarrow> (string, pyval) dict option \<Rightarrow> string
     \<Rightarrow> error + MemorySystem" where
  "add_memory ms text memory_type meta now =
     (case llm_embed ms text of
        Inl e \<Rightarrow> Inl e
      | Inr emb \<Rightarrow>
          (let m = \<lparr>content = text, type' = memory_type, embedding = emb, timestamp = now,
                    metadata = (case meta of None \<Rightarrow> [] | Some d \<Rightarrow> d)\<rparr>;
               appended = memories ms @ [m];
               trimmed = (if int (length appended) > max_memories ms
                          then slice_from appended (- max_memories ms) else appended)
           in Inr (save_memories (ms\<lparr>memories := trimmed\<rparr>))))"

text \<open>
  \<open>get_relevant_memories(query, limit, memory_type)\<close>. \<open>np.dot\<close> of two vectors raises
  \<open>ValueError\<close> when their lengths differ; otherwise its value is computed by numpy in
  binary64, in an order of operations that the source does not fix, and is the parameter
  \<open>dot\<close> here. \<open>similarities.sort(reverse=True)\<close> sorts pairs \<open>(similarity, memory)\<close> with
  Python's tuple order: the similarities decide when they differ; when they are equal the
  memories are compared, which are dicts, equal or else unordered (\<open>TypeError\<close>).

  Two dicts are equal in Python when they have the same keys with equal values, in any
  order, and \<open>True\<close>, \<open>1\<close> and \<open>1.0\<close> are equal: \<open>py_canon\<close> brings a value to a form that is
  the same for equal values (numbers as reals, dict entries ordered by key), and
  \<open>memory_key\<close> does so for a memory. Objects outside JSON are compared by their \<open>repr\<close>.

  The outcome of \<open>list.sort\<close> does not depend on the order in which it compares. A comparison
  sort cannot tell where a pair belongs among pairs of the same similarity without comparing
  it with one of them, so it raises whenever two pairs of equal similarity hold different
  memories; otherwise every comparison is decided and the result is the one descending,
  stable arrangement. The sort is therefore written as a stable insertion sort with the
  same comparison; \<open>sort_reverse_fails_iff\<close> and \<open>sort_reverse_ok\<close> below state its outcome
  without reference to the insertion order.
\<close>

fun py_canon :: "pyval \<Rightarrow> pyval" where
  "py_canon (PBool b) = PFloat (if b then 1 else 0)"
| "py_canon (PInt i) = PFloat (of_int i)"
| "py_canon (PList xs) = PList (map py_canon xs)"
| "py_canon (PTuple xs) = PTuple (map py_canon xs)"
| "py_canon (PDict kvs) = PDict (sort_key fst (zip (map fst kvs) (map py_canon (map snd kvs))))"
| "py_canon v = v"

definition memory_key :: "memory \<Rightarrow> string \<times> string \<times> real list \<times> string \<times> pyval" where
  "memory_key m = (content m, type' m, embedding m, timestamp m, py_canon (PDict (metadata m)))"

definition memory_eq :: "memory \<Rightarrow> memory \<Rightarrow> bool" where
  \<comment> \<open>\<open>a == b\<close> on memories\<close>
  "memory_eq a b = (memory_key a = memory_key b)"

definition np_dot :: "(real list \<Rightarrow> real list \<Rightarrow> real) \<Rightarrow> real list \<Rightarrow> real list \<Rightarrow> error + real" where
  "np_dot dot a b = (if length a = length b then Inr (dot a b) else Inl ValueError)"

fun similarities_loop ::
  "(real list \<Rightarrow> real list \<Rightarrow> real) \<Rightarrow> real list \<Rightarrow> memory list \<Rightarrow> error + (real \<times> memory) list" where
  "similarities_loop dot q [] = Inr []"
| "similarities_loop dot q (m # ms) =
     (case np_dot dot q (embedding m) of
        Inl e \<Rightarrow> Inl e
      | Inr similarity \<Rightarrow>
          (case similarities_loop dot q ms of
             Inl e \<Rightarrow> Inl e
           | Inr rest \<Rightarrow> Inr ((similarity, m) # rest)))"

definition tuple_lt :: "real \<times> memory \<Rightarrow> real \<times> memory \<Rightarrow> error + bool" where
  "tuple_lt v w =
     (if fst v \<noteq> fst w then Inr (fst v < fst w)
      else if memory_eq (snd v) (snd w) then Inr False
      else Inl TypeError)"

fun insert_desc :: "real \<times> memory \<Rightarrow> (real \<times> memory) list \<Rightarrow> error + (real \<times> memory) list" where
  "insert_desc x [] = Inr [x]"
| "insert_desc x (y # ys) =
     (case tuple_lt x y of
        Inl e \<Rightarrow> Inl e
      | Inr True \<Rightarrow> (case insert_desc x ys of Inl e \<Rightarrow> Inl e | Inr r \<Rightarrow> Inr (y # r))
      | Inr False \<Rightarrow> Inr (x # y # ys))"

fun sort_reverse :: "(real \<times> memory) list \<Rightarrow> error + (real \<times> memory) list" where
  "sort_reverse [] = Inr []"
| "sort_reverse (x # xs) =
     (case sort_reverse xs of Inl e \<Rightarrow> Inl e | Inr r \<Rightarrow> insert_desc x r)"

definition filter_type :: "string option \<Rightarrow> memory list \<Rightarrow> memory list" where
  \<comment> \<open>\<open>if memory_type: memories = [m for m in memories if m["type"] == memory_type]\<close>\<close>
  "filter_type memory_type ms =
     (case memory_type of
        None \<Rightarrow> ms
      | Some t \<Rightarrow> if t = [] then ms else filter (\<lambda>m. type' m = t) ms)"

definition relevant_body ::
  "(real list \<Rightarrow> real list \<Rightarrow> real) \<Rightarrow> MemorySystem \<Rightarrow> string \<Rightarrow> int \<Rightarrow> string option
     \<Rightarrow> error + memory list" where
  \<comment> \<open>the \<open>try\<close> block\<close>
  "relevant_body dot ms query limit memory_type =
     (case llm_embed ms query of
        Inl e \<Rightarrow> Inl e
      | Inr query_embedding \<Rightarrow>
          (case similarities_loop dot query_embedding (filter_type memory_type (memories ms)) of
             Inl e \<Rightarrow> Inl e
           | Inr similarities \<Rightarrow>
               (case sort_reverse similarities of
                  Inl e \<Rightarrow> Inl e
                | Inr ranked \<Rightarrow> Inr (map snd (slice_to ranked limit)))))"

definition get_relevant_memories ::
  "(real list \<Rightarrow> real list \<Rightarrow> real) \<Rightarrow> MemorySystem \<Rightarrow> string \<Rightarrow> int \<Rightarrow> string option
     \<Rightarrow> memory list" where
  \<comment> \<open>\<open>except Exception\<close>: logged, and the empty list returned\<close>
  "get_relevant_memories dot ms query limit memory_type =
     (case relevant_body dot ms query limit memory_type of Inl e \<Rightarrow> [] | Inr r \<Rightarrow> r)"

text \<open>
  \<open>memories.sort(key=lambda x: x["timestamp"], reverse=True)\<close>: Python reverses the list, sorts
  it stably in ascending order and reverses it again, so that equal keys keep their order.
  Without a type filter the list sorted is \<open>self.memories\<close> itself; with one it is a copy.
\<close>

definition sort_by_timestamp :: "memory list \<Rightarrow> memory list" where
  "sort_by_timestamp ms = rev (sort_key timestamp (rev ms))"

definition get_recent_memories ::
  "MemorySystem \<Rightarrow> int \<Rightarrow> string option \<Rightarrow> memory list \<times> MemorySystem" where
  "get_recent_memories ms limit memory_type =
     (if truthy memory_type
      then (slice_to (sort_by_timestamp (filter_type memory_type (memories ms))) limit, ms)
      else (let ordered = sort_by_timestamp (memories ms)
            in (slice_to ordered limit, ms\<lparr>memories := ordered\<rparr>)))"

definition get_memories_for_reflection ::
  "MemorySystem \<Rightarrow> string option \<Rightarrow> int \<Rightarrow> memory list \<times> MemorySystem" where
  \<comment> \<open>the time period is not used\<close>
  "get_memories_for_reflection ms time_period limit =
     (let ordered = sort_by_timestamp (memories ms)
      in (slice_to ordered limit, ms\<lparr>memories := ordered\<rparr>))"


section \<open>Interaction orchestrator (interaction.py)\<close>

text \<open>
  The orchestrator receives its collaborators as objects and calls their methods. It calls
  \<open>get_traits\<close> and \<open>process_update\<close> on the personality object, which the class
  \<open>Personality\<close> of personality.py does not define; they are parameters here, over any type
  \<open>'p\<close> of personality objects. The prompt templates (\<open>PromptManager.format_reply\<close> and
  \<open>format_memory_update\<close>, together with the string formatting of their arguments) and the
  language model's \<open>generate\<close> are parameters as well: each returns its text or raises.
  \<open>utcnow k\<close> is the \<open>k\<close>-th reading of \<open>datetime.utcnow().isoformat()\<close>, and \<open>np_inner\<close> is
  numpy's inner product of two vectors of equal length.
\<close>

record 'p collaborators =
  get_traits :: "'p \<Rightarrow> error + (string \<rightharpoonup> real)"
  process_update :: "'p \<Rightarrow> string \<Rightarrow> error + 'p"
  format_reply ::
    "pyval \<Rightarrow> string \<Rightarrow> (string, pyval) dict \<Rightarrow> string \<Rightarrow> (string \<rightharpoonup> real) \<Rightarrow> response_style
       \<Rightarrow> error + string"
  format_memory_update :: "string \<Rightarrow> (string \<rightharpoonup> real) \<Rightarrow> memory list \<Rightarrow> error + string"
  llm_generate :: "string \<Rightarrow> (string, pyval) dict option \<Rightarrow> error + string"
  style_config :: response_style
  config_max_memories :: int
  utcnow :: "nat \<Rightarrow> string"
  np_inner :: "real list \<Rightarrow> real list \<Rightarrow> real"




record interaction_record =
  timestamp' :: string
  user_input :: string
  response :: string
  context' :: "(string, pyval) dict option"
  relevant_memories :: "memory list"

text \<open>
  The state of the orchestrator. \<open>calls\<close> is not a field of the source: it is the log of the
  calls the orchestrator has made to its collaborators, in order, kept so that a statement
  can say how often a step is run.
\<close>

datatype call =
    Recall
  | GetTraits
  | Generate
  | Recent
  | Analyze
  | ProcessUpdate string
  | AddMemory string string

record 'p DigitalTwinInteraction =
  memory :: MemorySystem
  personality :: 'p
  interaction_history :: "interaction_record list"
  clock_reads :: nat
  calls :: "call list"








definition known :: "'p collaborators \<Rightarrow> 'p DigitalTwinInteraction \<Rightarrow> memory list" where
  "known env tw = fst (get_recent_memories (memory tw) (config_max_memories env) None)"







section \<open>Predicates used in the statements\<close>

text \<open>One step of the smoothing of \<open>evolve\<close> towards the target \<open>t\<close>, as the floats compute it.\<close>

definition smooth_step :: "real \<Rightarrow> real \<Rightarrow> real" where
  "smooth_step t w = max 0 (min 1 (fadd (fmul w float_0_9) (fmul t float_0_1)))"

text \<open>
  The scored pairs that \<open>get_relevant_memories\<close> sorts; a clash is a pair of them with equal
  similarity and different memories, which is where Python's tuple order is undefined.
\<close>

definition scored ::
  "(real list \<Rightarrow> real list \<Rightarrow> real) \<Rightarrow> real list \<Rightarrow> memory list \<Rightarrow> (real \<times> memory) list" where
  "scored dot q ms = map (\<lambda>m. (dot q (embedding m), m)) ms"

definition tie_clash :: "(real \<times> memory) list \<Rightarrow> bool" where
  "tie_clash xs =
     (\<exists>a\<in>set xs. \<exists>b\<in>set xs. fst a = fst b \<and> memory_key (snd a) \<noteq> memory_key (snd b))"

definition sorted_desc :: "(real \<times> memory) list \<Rightarrow> bool" where
  "sorted_desc xs = sorted_wrt (\<lambda>a b. fst b \<le> fst a) xs"

text \<open>
  A JSON-native value is built from \<open>None\<close>, booleans, numbers, strings, lists and dicts with
  string keys: no tuple and no object outside JSON.
\<close>

fun json_native :: "pyval \<Rightarrow> bool" where
  "json_native (PTuple xs) = False"
| "json_native (PObject r) = False"
| "json_native (PList xs) = list_all json_native xs"
| "json_native (PDict kvs) = list_all json_native (map snd kvs)"
| "json_native v = True"

definition memory_json_native :: "memory \<Rightarrow> bool" where
  "memory_json_native m = list_all json_native (map snd (metadata m))"

text \<open>The name of the open section, as far as Python truth sees one.\<close>

definition open_name :: "string option \<Rightarrow> string option" where
  "open_name cur = (if truthy cur then cur else None)"

section \<open>Example states\<close>

definition example_personality :: Personality where
  "example_personality =
     \<lparr>traits = [(''openness'', \<lparr>name = ''openness'', value' = 1/2, history = []\<rparr>),
                (''neuroticism'', \<lparr>name = ''neuroticism'', value' = 3/10, history = []\<rparr>)],
      last_updated = 0\<rparr>"

definition settled_personality :: Personality where
  "settled_personality =
     \<lparr>traits = [(''openness'', \<lparr>name = ''openness'', value' = 13/16, history = []\<rparr>)],
      last_updated = 0\<rparr>"

definition example_clock :: clock where
  "example_clock k = 10 + k"

definition met_ann :: memory where
  "met_ann = \<lparr>content = ''met Ann'', type' = ''episodic'', embedding = [1, 0],
              timestamp = ''2024-01-01T09:00:00'',
              metadata = [(''source'', PStr ''interaction_analysis''), (''interaction_id'', PInt 0)]\<rparr>"

definition likes_tea :: memory where
  "likes_tea = \<lparr>content = ''Ann likes tea'', type' = ''semantic'', embedding = [1, 0],
                timestamp = ''2024-01-02T09:00:00'',
                metadata = [(''source'', PStr ''interaction_analysis'')]\<rparr>"

definition example_store :: MemorySystem where
  "example_store =
     \<lparr>llm_embed = (\<lambda>t. Inr [1, 0]), max_memories = 2, memories = [met_ann, likes_tea],
      memory_file = Absent\<rparr>"

definition example_dot :: "real list \<Rightarrow> real list \<Rightarrow> real" where
  "example_dot a b = sum_list (map2 (*) a b)"

definition ranked_store :: MemorySystem where
  "ranked_store = example_store\<lparr>memories := [met_ann\<lparr>embedding := [0, 1]\<rparr>, likes_tea]\<rparr>"

definition short_query_store :: MemorySystem where
  "short_query_store = example_store\<lparr>llm_embed := (\<lambda>t. Inr [1])\<rparr>"

definition offline_store :: MemorySystem where
  "offline_store = example_store\<lparr>llm_embed := (\<lambda>t. Inl ProviderError)\<rparr>"

definition zero_capacity_store :: MemorySystem where
  "zero_capacity_store =
     \<lparr>llm_embed = (\<lambda>t. Inr [1, 0]), max_memories = 0, memories = [], memory_file = Absent\<rparr>"

definition tuple_store :: MemorySystem where
  "tuple_store =
     \<lparr>llm_embed = (\<lambda>t. Inr [1, 0]), max_memories = 1000,
      memories = [met_ann\<lparr>metadata := [(''span'', PTuple [PInt 1, PInt 2])]\<rparr>],
      memory_file = Absent\<rparr>"











section \<open>Properties of the personality engine\<close>

lemma dict_get_dict_set:
  "dict_get (dict_set d k v) k' = (if k' = k then Some v else dict_get d k')"
  by (induction d) (auto simp: dict_get_def)

lemma keys_dict_set:
  "dict_get d k = Some v0 \<Longrightarrow> map fst (dict_set d k v) = map fst d"
  by (induction d) (auto simp: dict_get_def split: if_splits)

lemma update_trait_known:
  assumes "dict_get (traits p) nm = Some tr"
  shows "update_trait p nm x clk k =
     (p\<lparr>traits := dict_set (traits p) nm
           (tr\<lparr>value' := max 0 (min 1 x), history := history tr @ [(max 0 (min 1 x), clk k)]\<rparr>),
        last_updated := clk (Suc k)\<rparr>, Suc (Suc k))"
  using assms by (simp add: update_trait_def trait_update_def Let_def)

lemma update_trait_unknown:
  "dict_get (traits p) nm = None \<Longrightarrow> update_trait p nm x clk k = (p, k)"
  by (simp add: update_trait_def)

lemma update_trait_other:
  "m \<noteq> nm \<Longrightarrow> dict_get (traits (fst (update_trait p nm x clk k))) m = dict_get (traits p) m"
  by (cases "dict_get (traits p) nm")
     (simp_all add: update_trait_known update_trait_unknown dict_get_dict_set)

lemma update_trait_keys:
  "map fst (traits (fst (update_trait p nm x clk k))) = map fst (traits p)"
  by (cases "dict_get (traits p) nm")
     (simp_all add: update_trait_known update_trait_unknown keys_dict_set)

lemma evolve_loop_frame:
  "nm \<notin> set names \<Longrightarrow>
   dict_get (traits (fst (evolve_loop names ctx clk (p, k)))) nm = dict_get (traits p) nm"
proof (induction names arbitrary: p k)
  case Nil
  then show ?case by simp
next
  case (Cons a names)
  then have ne: "nm \<noteq> a" and rest: "nm \<notin> set names" by auto
  show ?case
  proof (cases "ctx a")
    case None
    with Cons.IH [OF rest] show ?thesis by simp
  next
    case (Some t)
    show ?thesis
    proof (cases "dict_get (traits p) a")
      case None
      with Some Cons.IH [OF rest] show ?thesis by simp
    next
      case (Some tr)
      obtain p' k' where u: "update_trait p a (fadd (fmul (value' tr) float_0_9) (fmul t float_0_1)) clk k = (p', k')"
        by (cases "update_trait p a (fadd (fmul (value' tr) float_0_9) (fmul t float_0_1)) clk k")
      have "dict_get (traits p') nm = dict_get (traits p) nm"
        using update_trait_other [OF ne, of p "fadd (fmul (value' tr) float_0_9) (fmul t float_0_1)" clk k] u by simp
      with \<open>ctx a = Some t\<close> Some u Cons.IH [OF rest, of p' k'] show ?thesis
        by (simp add: Let_def)
    qed
  qed
qed

lemma evolve_loop_absent:
  "ctx nm = None \<Longrightarrow>
   dict_get (traits (fst (evolve_loop names ctx clk (p, k)))) nm = dict_get (traits p) nm"
proof (induction names arbitrary: p k)
  case Nil
  then show ?case by simp
next
  case (Cons a names)
  show ?case
  proof (cases "ctx a")
    case None
    with Cons show ?thesis by simp
  next
    case (Some t)
    with Cons.prems have ne: "nm \<noteq> a" by auto
    show ?thesis
    proof (cases "dict_get (traits p) a")
      case None
      with Some Cons show ?thesis by simp
    next
      case (Some tr)
      obtain p' k' where u: "update_trait p a (fadd (fmul (value' tr) float_0_9) (fmul t float_0_1)) clk k = (p', k')"
        by (cases "update_trait p a (fadd (fmul (value' tr) float_0_9) (fmul t float_0_1)) clk k")
      have "dict_get (traits p') nm = dict_get (traits p) nm"
        using update_trait_other [OF ne, of p "fadd (fmul (value' tr) float_0_9) (fmul t float_0_1)" clk k] u by simp
      with \<open>ctx a = Some t\<close> Some u Cons.IH [OF Cons.prems, of p' k'] show ?thesis
        by (simp add: Let_def)
    qed
  qed
qed

lemma evolve_loop_keys:
  "map fst (traits (fst (evolve_loop names ctx clk (p, k)))) = map fst (traits p)"
proof (induction names arbitrary: p k)
  case Nil
  then show ?case by simp
next
  case (Cons a names)
  show ?case
  proof (cases "ctx a")
    case None
    with Cons show ?thesis by simp
  next
    case (Some t)
    show ?thesis
    proof (cases "dict_get (traits p) a")
      case None
      with Some Cons show ?thesis by simp
    next
      case (Some tr)
      obtain p' k' where u: "update_trait p a (fadd (fmul (value' tr) float_0_9) (fmul t float_0_1)) clk k = (p', k')"
        by (cases "update_trait p a (fadd (fmul (value' tr) float_0_9) (fmul t float_0_1)) clk k")
      have "map fst (traits p') = map fst (traits p)"
        using update_trait_keys [of p a "fadd (fmul (value' tr) float_0_9) (fmul t float_0_1)" clk k] u by simp
      with \<open>ctx a = Some t\<close> Some u Cons.IH [of p' k'] show ?thesis
        by (simp add: Let_def)
    qed
  qed
qed

lemma evolve_loop_present:
  assumes "distinct names" "nm \<in> set names" "ctx nm = Some t" "dict_get (traits p) nm = Some tr"
  shows "\<exists>tr' ts. dict_get (traits (fst (evolve_loop names ctx clk (p, k)))) nm = Some tr'
           \<and> value' tr' = max 0 (min 1 (fadd (fmul (value' tr) float_0_9) (fmul t float_0_1)))
           \<and> history tr' = history tr @ [(value' tr', ts)]
           \<and> name tr' = name tr"
  using assms
proof (induction names arbitrary: p k)
  case Nil
  then show ?case by simp
next
  case (Cons a names)
  show ?case
  proof (cases "a = nm")
    case True
    with Cons.prems have rest: "nm \<notin> set names" by auto
    obtain p' k' where u: "update_trait p nm (fadd (fmul (value' tr) float_0_9) (fmul t float_0_1)) clk k = (p', k')"
      by (cases "update_trait p nm (fadd (fmul (value' tr) float_0_9) (fmul t float_0_1)) clk k")
    have p': "dict_get (traits p') nm =
        Some (tr\<lparr>value' := max 0 (min 1 (fadd (fmul (value' tr) float_0_9) (fmul t float_0_1))),
                 history := history tr @ [(max 0 (min 1 (fadd (fmul (value' tr) float_0_9) (fmul t float_0_1))), clk k)]\<rparr>)"
      using u update_trait_known [OF Cons.prems(4), of "fadd (fmul (value' tr) float_0_9) (fmul t float_0_1)" clk k]
      by (auto simp: dict_get_dict_set)
    have "dict_get (traits (fst (evolve_loop (a # names) ctx clk (p, k)))) nm
          = dict_get (traits p') nm"
      using True Cons.prems(3,4) u evolve_loop_frame [OF rest, of ctx clk p' k']
      by (simp add: Let_def)
    with p' show ?thesis by simp
  next
    case False
    with Cons.prems have d: "distinct names" and m: "nm \<in> set names" by auto
    show ?thesis
    proof (cases "ctx a")
      case None
      with Cons.IH [OF d m Cons.prems(3,4), of k] show ?thesis by simp
    next
      case (Some ta)
      show ?thesis
      proof (cases "dict_get (traits p) a")
        case None
        with Some Cons.IH [OF d m Cons.prems(3,4), of k] show ?thesis by simp
      next
        case (Some tra)
        obtain p' k' where u: "update_trait p a (fadd (fmul (value' tra) float_0_9) (fmul ta float_0_1)) clk k = (p', k')"
          by (cases "update_trait p a (fadd (fmul (value' tra) float_0_9) (fmul ta float_0_1)) clk k")
        have "dict_get (traits p') nm = Some tr"
          using update_trait_other [of nm a p "fadd (fmul (value' tra) float_0_9) (fmul ta float_0_1)" clk k] u False
            Cons.prems(4) by simp
        from Cons.IH [OF d m Cons.prems(3) this, of k'] \<open>ctx a = Some ta\<close> Some u
        show ?thesis by (simp add: Let_def)
      qed
    qed
  qed
qed

lemma dict_get_keys: "dict_get d k = Some v \<Longrightarrow> k \<in> set (map fst d)"
  by (auto simp: dict_get_def dest: map_of_SomeD intro: rev_image_eqI)

lemma trait_value_evolve:
  assumes "distinct (map fst (traits p))"
  shows "trait_value (fst (evolve p ctx clk k)) nm =
    (case ctx nm of
       None \<Rightarrow> trait_value p nm
     | Some t \<Rightarrow> map_option (\<lambda>v. max 0 (min 1 (fadd (fmul v float_0_9) (fmul t float_0_1)))) (trait_value p nm))"
proof (cases "ctx nm")
  case None
  then show ?thesis
    by (simp add: trait_value_def evolve_def evolve_loop_absent)
next
  case (Some t)
  show ?thesis
  proof (cases "dict_get (traits p) nm")
    case None
    then have "nm \<notin> set (map fst (traits p))"
      by (simp add: dict_get_def map_of_eq_None_iff)
    then show ?thesis using Some None
      by (simp add: trait_value_def evolve_def evolve_loop_frame)
  next
    case tr: (Some tr)
    have "\<exists>tr' ts. dict_get (traits (fst (evolve_loop (map fst (traits p)) ctx clk (p, k)))) nm = Some tr'
           \<and> value' tr' = max 0 (min 1 (fadd (fmul (value' tr) float_0_9) (fmul t float_0_1)))
           \<and> history tr' = history tr @ [(value' tr', ts)]
           \<and> name tr' = name tr"
      using assms dict_get_keys [OF tr] Some tr by (rule evolve_loop_present)
    then show ?thesis using Some tr
      by (auto simp: trait_value_def evolve_def)
  qed
qed

lemma evolve_keys: "map fst (traits (fst (evolve p ctx clk k))) = map fst (traits p)"
  by (simp add: evolve_def evolve_loop_keys)

lemma evolve_iter_keys:
  "map fst (traits (fst (evolve_iter n ctx clk (p, k)))) = map fst (traits p)"
proof (induction n)
  case 0
  then show ?case by simp
next
  case (Suc n)
  obtain p' k' where e: "evolve_iter n ctx clk (p, k) = (p', k')"
    by (cases "evolve_iter n ctx clk (p, k)")
  with Suc evolve_keys [of p' ctx clk k'] show ?case by simp
qed


subsection \<open>Rounding\<close>

lemma binade_numeral:
  "binade (numeral k) x =
     (if x < 1 then binade (pred_numeral k) (2 * x) - 1
      else if 2 \<le> x then binade (pred_numeral k) (x / 2) + 1 else 0)"
  by (simp add: numeral_eq_Suc)

lemmas float_eval = fmul_def fadd_def round64_def quantum_def pow2_def round_even_def
  float_0_9_def float_0_1_def binade_numeral Let_def

lemma round_even_near: "\<bar>of_int (round_even y) - y\<bar> \<le> 1/2"
proof -
  have "of_int \<lfloor>y\<rfloor> \<le> y" "y < of_int \<lfloor>y\<rfloor> + 1" by linarith+
  then show ?thesis by (auto simp: round_even_def Let_def)
qed

lemma round_even_nonneg: "0 \<le> y \<Longrightarrow> 0 \<le> round_even y"
proof -
  assume "0 \<le> y"
  then have "0 \<le> \<lfloor>y\<rfloor>" by simp
  then show ?thesis by (simp add: round_even_def Let_def)
qed

lemma binade_nonpos: "0 < x \<Longrightarrow> x < 2 \<Longrightarrow> binade n x \<le> 0"
proof (induction n arbitrary: x)
  case 0
  then show ?case by simp
next
  case (Suc n)
  show ?case
  proof (cases "x < 1")
    case True
    with Suc.prems have "0 < 2 * x" "2 * x < 2" by simp_all
    from Suc.IH [OF this] True show ?thesis by simp
  next
    case False
    with Suc.prems show ?thesis by simp
  qed
qed

lemma pow2_pos: "0 < pow2 k"
  by (simp add: pow2_def)

lemma pow2_small: "k \<le> - 52 \<Longrightarrow> pow2 k \<le> 1 / 2 ^ 52"
proof -
  assume k: "k \<le> - 52"
  then have "52 \<le> nat (- k)" by simp
  then have "(2::real) ^ 52 \<le> 2 ^ nat (- k)" by (intro power_increasing) simp_all
  then have "1 / (2::real) ^ nat (- k) \<le> 1 / 2 ^ 52"
    by (intro divide_left_mono) simp_all
  with k show ?thesis by (simp add: pow2_def)
qed

lemma round64_nonneg: "0 \<le> x \<Longrightarrow> 0 \<le> round64 x"
proof (cases "x = 0")
  case True
  then show ?thesis by (simp add: round64_def)
next
  case False
  assume "0 \<le> x"
  with False have pos: "0 < x" by simp
  have qp: "0 < quantum x" unfolding quantum_def by (rule pow2_pos)
  then have "0 \<le> x / quantum x" using pos by simp
  then have "0 \<le> round_even (x / quantum x)" by (rule round_even_nonneg)
  then have "0 \<le> of_int (round_even (x / quantum x)) * quantum x"
    using qp by simp
  with pos show ?thesis by (simp add: round64_def)
qed

lemma round64_error:
  assumes "0 \<le> x" "x < 2"
  shows "\<bar>round64 x - x\<bar> \<le> 1 / 2 ^ 53"
proof (cases "x = 0")
  case True
  then show ?thesis by (simp add: round64_def)
next
  case False
  with assms have pos: "0 < x" by simp
  let ?q = "quantum x"
  have "binade 1100 \<bar>x\<bar> \<le> 0" using binade_nonpos [of "\<bar>x\<bar>" 1100] pos assms(2) by simp
  then have "max (binade 1100 \<bar>x\<bar>) (- 1022) - 52 \<le> - 52" by simp
  then have qs: "?q \<le> 1 / 2 ^ 52" unfolding quantum_def by (rule pow2_small)
  have qp: "0 < ?q" unfolding quantum_def by (rule pow2_pos)
  let ?n = "round_even (x / ?q)"
  have r: "round64 x = of_int ?n * ?q" using pos by (simp add: round64_def)
  have "\<bar>of_int ?n * ?q - x\<bar> = \<bar>of_int ?n - x / ?q\<bar> * ?q"
  proof -
    have "of_int ?n * ?q - x = (of_int ?n - x / ?q) * ?q" using qp by (simp add: field_simps)
    then show ?thesis using qp by (simp add: abs_mult)
  qed
  also have "\<dots> \<le> (1/2) * ?q"
    using round_even_near [of "x / ?q"] qp by (intro mult_right_mono) simp_all
  also have "\<dots> \<le> (1/2) * (1 / 2 ^ 52)" using qs by simp
  also have "\<dots> = 1 / 2 ^ 53" by simp
  finally show ?thesis using r by simp
qed

text \<open>One smoothing step in floats is within \<open>2^(-51)\<close> of the exact value.\<close>

lemma smooth_error:
  assumes "0 \<le> v" "v \<le> 1" "0 \<le> t" "t \<le> 1"
  shows "\<bar>fadd (fmul v float_0_9) (fmul t float_0_1) - (0.9 * v + 0.1 * t)\<bar> \<le> 1 / 2 ^ 51"
proof -
  define eps :: real where "eps = 1 / 2 ^ 53"
  have eps: "0 \<le> eps" "eps \<le> 1/100" "4 * eps = 1 / 2 ^ 51" by (simp_all add: eps_def)
  define a b where "a = v * float_0_9" and "b = t * float_0_1"
  define x y z where "x = fmul v float_0_9" and "y = fmul t float_0_1"
    and "z = fadd (fmul v float_0_9) (fmul t float_0_1)"
  have c9: "0 \<le> float_0_9" "float_0_9 \<le> 91/100" "\<bar>float_0_9 - 0.9\<bar> \<le> eps / 2"
    by (simp_all add: float_0_9_def eps_def)
  have c1: "0 \<le> float_0_1" "float_0_1 \<le> 11/100" "\<bar>float_0_1 - 0.1\<bar> \<le> eps / 2"
    by (simp_all add: float_0_1_def eps_def)
  have a0: "0 \<le> a" unfolding a_def using assms(1) c9(1) by (rule mult_nonneg_nonneg)
  have "v * float_0_9 \<le> 1 * (91/100)" using assms(1,2) c9(1,2) by (intro mult_mono) simp_all
  then have a1: "a \<le> 91/100" by (simp add: a_def)
  have b0: "0 \<le> b" unfolding b_def using assms(3) c1(1) by (rule mult_nonneg_nonneg)
  have "t * float_0_1 \<le> 1 * (11/100)" using assms(3,4) c1(1,2) by (intro mult_mono) simp_all
  then have b1: "b \<le> 11/100" by (simp add: b_def)
  have "\<bar>round64 a - a\<bar> \<le> 1 / 2 ^ 53" using a0 a1 by (intro round64_error) simp_all
  then have ea: "\<bar>x - a\<bar> \<le> eps" by (simp add: x_def a_def fmul_def eps_def)
  have "\<bar>round64 b - b\<bar> \<le> 1 / 2 ^ 53" using b0 b1 by (intro round64_error) simp_all
  then have eb: "\<bar>y - b\<bar> \<le> eps" by (simp add: y_def b_def fmul_def eps_def)
  have x0: "0 \<le> x" unfolding x_def fmul_def using a0 [unfolded a_def] by (rule round64_nonneg)
  have y0: "0 \<le> y" unfolding y_def fmul_def using b0 [unfolded b_def] by (rule round64_nonneg)
  have s0: "0 \<le> x + y" using x0 y0 by simp
  have s2: "x + y < 2" using ea eb a1 b1 eps(2) by (simp only: abs_diff_le_iff) linarith
  have "\<bar>round64 (x + y) - (x + y)\<bar> \<le> 1 / 2 ^ 53" using s0 s2 by (rule round64_error)
  then have es: "\<bar>z - (x + y)\<bar> \<le> eps" by (simp add: z_def x_def y_def fadd_def eps_def)
  have "\<bar>v * (float_0_9 - 0.9)\<bar> \<le> 1 * (eps / 2)"
    unfolding abs_mult using assms(1,2) c9(3) by (intro mult_mono) simp_all
  then have ev: "\<bar>a - 0.9 * v\<bar> \<le> eps / 2" by (simp add: a_def algebra_simps)
  have "\<bar>t * (float_0_1 - 0.1)\<bar> \<le> 1 * (eps / 2)"
    unfolding abs_mult using assms(3,4) c1(3) by (intro mult_mono) simp_all
  then have et: "\<bar>b - 0.1 * t\<bar> \<le> eps / 2" by (simp add: b_def algebra_simps)
  have "\<bar>z - (0.9 * v + 0.1 * t)\<bar> \<le> 4 * eps"
    using ea eb es ev et by (simp only: abs_diff_le_iff) linarith
  then show ?thesis by (simp only: eps(3) z_def)
qed


lemma clamp_near:
  fixes r g :: real
  assumes "0 \<le> g" "g \<le> 1"
  shows "\<bar>max 0 (min 1 r) - g\<bar> \<le> \<bar>r - g\<bar>"
  using assms by (simp add: max_def min_def abs_if)

lemma smooth_step_range: "0 \<le> smooth_step t w \<and> smooth_step t w \<le> 1"
  by (simp add: smooth_step_def)

lemma smooth_step_error:
  assumes "0 \<le> w" "w \<le> 1" "0 \<le> t" "t \<le> 1"
  shows "\<bar>smooth_step t w - (0.9 * w + 0.1 * t)\<bar> \<le> 1 / 2 ^ 51"
proof -
  have g: "0 \<le> 0.9 * w + 0.1 * t" "0.9 * w + 0.1 * t \<le> 1" using assms by simp_all
  from clamp_near [OF g] smooth_error [OF assms] show ?thesis
    unfolding smooth_step_def by (rule order_trans)
qed

lemma smooth_iter_range:
  "0 \<le> v \<Longrightarrow> v \<le> 1 \<Longrightarrow> 0 \<le> (smooth_step t ^^ n) v \<and> (smooth_step t ^^ n) v \<le> 1"
  by (cases n) (simp_all add: smooth_step_range)

lemma smooth_iter_bound:
  assumes "0 \<le> v" "v \<le> 1" "0 \<le> t" "t \<le> 1"
  shows "\<bar>(smooth_step t ^^ n) v - t\<bar>
           \<le> (9/10) ^ n * \<bar>v - t\<bar> + (10 / 2 ^ 51) * (1 - (9/10) ^ n)"
proof (induction n)
  case 0
  then show ?case by simp
next
  case (Suc n)
  define w where "w = (smooth_step t ^^ n) v"
  define eps :: real where "eps = 1 / 2 ^ 51"
  define c :: real where "c = (9/10) ^ n"
  define d where "d = \<bar>v - t\<bar>"
  have w: "0 \<le> w" "w \<le> 1" using smooth_iter_range [OF assms(1,2), where t = t and n = n] by (simp_all add: w_def)
  have e: "\<bar>smooth_step t w - (0.9 * w + 0.1 * t)\<bar> \<le> eps"
    using smooth_step_error [OF w assms(3,4)] by (simp add: eps_def)
  have ih: "\<bar>w - t\<bar> \<le> c * d + 10 * eps * (1 - c)"
    using Suc by (simp add: w_def c_def d_def eps_def)
  have "\<bar>0.9 * w + 0.1 * t - t\<bar> = (9/10) * \<bar>w - t\<bar>"
  proof -
    have "0.9 * w + 0.1 * t - t = (9/10) * (w - t)" by (simp add: algebra_simps)
    then have "\<bar>0.9 * w + 0.1 * t - t\<bar> = \<bar>(9/10) * (w - t)\<bar>" by (simp only:)
    also have "\<dots> = \<bar>9/10\<bar> * \<bar>w - t\<bar>" by (rule abs_mult)
    finally show ?thesis by simp
  qed
  with ih have g: "\<bar>0.9 * w + 0.1 * t - t\<bar> \<le> (9/10) * (c * d + 10 * eps * (1 - c))"
    by simp
  have "\<bar>smooth_step t w - t\<bar> \<le> eps + (9/10) * (c * d + 10 * eps * (1 - c))"
    using e g by (simp only: abs_diff_le_iff) linarith
  also have "\<dots> = ((9/10) * c) * d + 10 * eps * (1 - (9/10) * c)"
    by (simp add: algebra_simps)
  finally show ?case by (simp add: w_def c_def d_def eps_def)
qed

lemma trait_value_evolve_iter:
  assumes "distinct (map fst (traits p))" "ctx nm = Some t" "trait_value p nm = Some v"
  shows "trait_value (fst (evolve_iter n ctx clk (p, k))) nm = Some ((smooth_step t ^^ n) v)"
proof (induction n)
  case 0
  with assms show ?case by simp
next
  case (Suc n)
  obtain p' k' where e: "evolve_iter n ctx clk (p, k) = (p', k')"
    by (cases "evolve_iter n ctx clk (p, k)")
  have d: "distinct (map fst (traits p'))"
    using evolve_iter_keys [of n ctx clk p k] e assms(1) by simp
  have w: "trait_value p' nm = Some ((smooth_step t ^^ n) v)" using Suc e by simp
  have "trait_value (fst (evolve p' ctx clk k')) nm = Some (smooth_step t ((smooth_step t ^^ n) v))"
    using trait_value_evolve [OF d, of ctx clk k' nm] assms(2) w by (simp add: smooth_step_def)
  with e show ?case by simp
qed

text \<open>
  C4. For a known trait name and any real input, \<open>update_trait\<close> stores the input clamped to
  \<open>[0,1]\<close>, appends exactly one entry (the stored value and the clock reading) to that trait's
  history, leaves the other traits and the keys alone, and sets \<open>last_updated\<close> to the next
  clock reading. For an unknown name it changes nothing.
\<close>

theorem update_trait_clamps_and_records:
  "(dict_get (traits p) nm = Some tr \<longrightarrow>
      (\<exists>tr'. dict_get (traits (fst (update_trait p nm x clk k))) nm = Some tr'
         \<and> value' tr' = max 0 (min 1 x) \<and> 0 \<le> value' tr' \<and> value' tr' \<le> 1
         \<and> history tr' = history tr @ [(value' tr', clk k)]
         \<and> length (history tr') = length (history tr) + 1
         \<and> name tr' = name tr)
      \<and> (\<forall>m. m \<noteq> nm \<longrightarrow>
            dict_get (traits (fst (update_trait p nm x clk k))) m = dict_get (traits p) m)
      \<and> map fst (traits (fst (update_trait p nm x clk k))) = map fst (traits p)
      \<and> last_updated (fst (update_trait p nm x clk k)) = clk (Suc k))
   \<and> (dict_get (traits p) nm = None \<longrightarrow> update_trait p nm x clk k = (p, k))"
  by (auto simp: update_trait_known update_trait_unknown dict_get_dict_set keys_dict_set)

theorem update_trait_clamps_and_records_witness:
  "dict_get (traits example_personality) ''openness''
     = Some \<lparr>name = ''openness'', value' = 1/2, history = []\<rparr>
   \<and> (\<exists>tr'. dict_get (traits (fst (update_trait example_personality ''openness'' 3 (\<lambda>k. 10 + k) 0)))
                ''openness'' = Some tr'
          \<and> value' tr' = 1 \<and> history tr' = [(1, 10)])
   \<and> last_updated (fst (update_trait example_personality ''openness'' 3 (\<lambda>k. 10 + k) 0)) = 11
   \<and> dict_get (traits example_personality) ''humour'' = None
   \<and> update_trait example_personality ''humour'' 3 (\<lambda>k. 10 + k) 0 = (example_personality, 0)"
proof -
  have known: "dict_get (traits example_personality) ''openness''
      = Some \<lparr>name = ''openness'', value' = 1/2, history = []\<rparr>"
    by (simp add: example_personality_def dict_get_def)
  have unknown: "dict_get (traits example_personality) ''humour'' = None"
    by (simp add: example_personality_def dict_get_def)
  from known unknown
    update_trait_clamps_and_records
      [of example_personality "''openness''" "\<lparr>name = ''openness'', value' = 1/2, history = []\<rparr>"
          3 "\<lambda>k. 10 + k" 0]
    update_trait_clamps_and_records
      [of example_personality "''humour''" "\<lparr>name = ''openness'', value' = 1/2, history = []\<rparr>"
          3 "\<lambda>k. 10 + k" 0]
  show ?thesis by auto
qed

text \<open>
  C2, as stated, fails in floats. A trait at \<open>0.8125\<close> with the target \<open>0.8125\<close> is not left
  there: \<open>0.8125 * 0.9 + 0.8125 * 0.1\<close> is \<open>0.8125000000000001\<close>, one unit in the last place
  above, so the value is not \<open>0.9 v + 0.1 t\<close> and its distance to the target grows.
\<close>

theorem evolve_moves_off_target:
  "trait_value settled_personality ''openness'' = Some (13/16)
   \<and> trait_value (fst (evolve settled_personality [''openness'' \<mapsto> 13/16] example_clock 0))
        ''openness'' = Some (13/16 + 1 / 2 ^ 53)
   \<and> 0.9 * (13/16) + 0.1 * (13/16) = (13/16 :: real)
   \<and> \<bar>(13/16 :: real) - 13/16\<bar> < \<bar>13/16 + 1 / 2 ^ 53 - (13/16 :: real)\<bar>"
proof -
  have m1: "fmul (13/16) float_0_9 = 6586514455029351 / 2 ^ 53"
    by (simp add: float_eval)
  have m2: "fmul (13/16) float_0_1 = 5854679515581645 / 2 ^ 56"
    by (simp add: float_eval)
  have a1: "fadd (6586514455029351 / 2 ^ 53) (5854679515581645 / 2 ^ 56) = 7318349394477057 / 2 ^ 53"
    by (simp add: float_eval)
  have "fadd (fmul (13/16) float_0_9) (fmul (13/16) float_0_1) = 7318349394477057 / 2 ^ 53"
    by (simp only: m1 m2 a1)
  also have "\<dots> = 13/16 + 1 / 2 ^ 53" by simp
  finally have s: "fadd (fmul (13/16) float_0_9) (fmul (13/16) float_0_1) = 13/16 + 1 / 2 ^ 53" .
  have v: "trait_value settled_personality ''openness'' = Some (13/16)"
    by (simp add: settled_personality_def trait_value_def dict_get_def)
  have d: "distinct (map fst (traits settled_personality))"
    by (simp add: settled_personality_def)
  have "trait_value (fst (evolve settled_personality [''openness'' \<mapsto> 13/16] example_clock 0))
        ''openness'' = Some (max 0 (min 1 (fadd (fmul (13/16) float_0_9) (fmul (13/16) float_0_1))))"
    using trait_value_evolve [OF d, of "[''openness'' \<mapsto> 13/16]" example_clock 0 "''openness''"] v
    by simp
  also have "\<dots> = Some (13/16 + 1 / 2 ^ 53)" unfolding s by simp
  finally show ?thesis using v by simp
qed

text \<open>
  C2, amended. In a trait dict (keys pairwise distinct), \<open>evolve\<close> sets every trait with value
  \<open>v\<close> in \<open>[0,1]\<close> that has a target \<open>t\<close> in \<open>[0,1]\<close> in the context to the float result of
  \<open>v * 0.9 + t * 0.1\<close> clamped to \<open>[0,1]\<close>, which is within \<open>2^(-51)\<close> of \<open>0.9 v + 0.1 t\<close>; a trait
  without a target keeps its value and its history. After \<open>n\<close> calls of \<open>evolve\<close> with the
  same context the value is in \<open>[0,1]\<close> and within \<open>0.9^n |v - t| + 10 * 2^(-51)\<close> of the
  target.
\<close>

theorem evolve_smooths_in_floats:
  assumes "distinct (map fst (traits p))"
  shows "(\<forall>nm v t. trait_value p nm = Some v \<and> 0 \<le> v \<and> v \<le> 1
             \<and> ctx nm = Some t \<and> 0 \<le> t \<and> t \<le> 1 \<longrightarrow>
           trait_value (fst (evolve p ctx clk k)) nm
             = Some (max 0 (min 1 (fadd (fmul v float_0_9) (fmul t float_0_1))))
           \<and> \<bar>max 0 (min 1 (fadd (fmul v float_0_9) (fmul t float_0_1))) - (0.9 * v + 0.1 * t)\<bar>
               \<le> 1 / 2 ^ 51
           \<and> (\<exists>f. (\<forall>n. trait_value (fst (evolve_iter n ctx clk (p, k))) nm = Some (f n))
                  \<and> (\<forall>n. 0 \<le> f n \<and> f n \<le> 1)
                  \<and> (\<forall>n. \<bar>f n - t\<bar> \<le> (9/10) ^ n * \<bar>v - t\<bar> + 10 / 2 ^ 51)))
       \<and> (\<forall>nm. ctx nm = None \<longrightarrow>
             dict_get (traits (fst (evolve p ctx clk k))) nm = dict_get (traits p) nm)"
proof (intro conjI allI impI)
  fix nm v t
  assume h: "trait_value p nm = Some v \<and> 0 \<le> v \<and> v \<le> 1 \<and> ctx nm = Some t \<and> 0 \<le> t \<and> t \<le> 1"
  then have r: "0 \<le> v" "v \<le> 1" "0 \<le> t" "t \<le> 1" by simp_all
  show "trait_value (fst (evolve p ctx clk k)) nm
      = Some (max 0 (min 1 (fadd (fmul v float_0_9) (fmul t float_0_1))))"
    using trait_value_evolve [OF assms, of ctx clk k nm] h by simp
  show "\<bar>max 0 (min 1 (fadd (fmul v float_0_9) (fmul t float_0_1))) - (0.9 * v + 0.1 * t)\<bar>
      \<le> 1 / 2 ^ 51"
    using smooth_step_error [OF r] by (simp add: smooth_step_def)
  let ?f = "\<lambda>n. (smooth_step t ^^ n) v"
  have 1: "\<forall>n. trait_value (fst (evolve_iter n ctx clk (p, k))) nm = Some (?f n)"
    using trait_value_evolve_iter [OF assms, of ctx nm t v] h by simp
  have 2: "\<forall>n. 0 \<le> ?f n \<and> ?f n \<le> 1"
    using smooth_iter_range [OF r(1,2)] by simp
  have 3: "\<forall>n. \<bar>?f n - t\<bar> \<le> (9/10) ^ n * \<bar>v - t\<bar> + 10 / 2 ^ 51"
  proof
    fix n
    have "(10 / 2 ^ 51) * (1 - (9/10) ^ n) \<le> (10 / 2 ^ 51 :: real)"
      by (simp add: mult_left_le)
    with smooth_iter_bound [OF r, of n] show "\<bar>?f n - t\<bar> \<le> (9/10) ^ n * \<bar>v - t\<bar> + 10 / 2 ^ 51"
      by linarith
  qed
  from 1 2 3 show "\<exists>f. (\<forall>n. trait_value (fst (evolve_iter n ctx clk (p, k))) nm = Some (f n))
                  \<and> (\<forall>n. 0 \<le> f n \<and> f n \<le> 1)
                  \<and> (\<forall>n. \<bar>f n - t\<bar> \<le> (9/10) ^ n * \<bar>v - t\<bar> + 10 / 2 ^ 51)"
    by (intro exI [of _ ?f] conjI)
next
  fix nm
  assume "ctx nm = None"
  then show "dict_get (traits (fst (evolve p ctx clk k))) nm = dict_get (traits p) nm"
    by (simp add: evolve_def evolve_loop_absent)
qed

theorem evolve_smooths_in_floats_witness:
  "distinct (map fst (traits example_personality))
   \<and> trait_value example_personality ''openness'' = Some (1/2)
   \<and> trait_value (fst (evolve example_personality [''openness'' \<mapsto> 1] example_clock 0)) ''openness''
       = Some (2476979795053773 / 2 ^ 52)
   \<and> dict_get (traits (fst (evolve example_personality [''openness'' \<mapsto> 1] example_clock 0)))
         ''neuroticism''
       = dict_get (traits example_personality) ''neuroticism''"
proof -
  have d: "distinct (map fst (traits example_personality))"
    by (simp add: example_personality_def)
  have v: "trait_value example_personality ''openness'' = Some (1/2)"
    by (simp add: example_personality_def trait_value_def dict_get_def)
  have m1: "fmul (1/2) float_0_9 = 8106479329266893 / 2 ^ 54"
    by (simp add: float_eval)
  have m2: "fmul 1 float_0_1 = 3602879701896397 / 2 ^ 55"
    by (simp add: float_eval)
  have a1: "fadd (8106479329266893 / 2 ^ 54) (3602879701896397 / 2 ^ 55) = 2476979795053773 / 2 ^ 52"
    by (simp add: float_eval)
  have s: "max 0 (min 1 (fadd (fmul (1/2) float_0_9) (fmul 1 float_0_1))) = 2476979795053773 / 2 ^ 52"
    unfolding m1 m2 a1 by simp
  note inst = evolve_smooths_in_floats [OF d, of "[''openness'' \<mapsto> 1]" example_clock 0]
  from inst have
    "trait_value example_personality ''openness'' = Some (1/2) \<and> (0::real) \<le> 1/2 \<and> (1/2::real) \<le> 1
       \<and> [''openness'' \<mapsto> (1::real)] ''openness'' = Some 1 \<and> (0::real) \<le> 1 \<and> (1::real) \<le> 1 \<longrightarrow>
     trait_value (fst (evolve example_personality [''openness'' \<mapsto> 1] example_clock 0)) ''openness''
       = Some (max 0 (min 1 (fadd (fmul (1/2) float_0_9) (fmul 1 float_0_1))))"
    by blast
  with v have "trait_value (fst (evolve example_personality [''openness'' \<mapsto> 1] example_clock 0))
      ''openness'' = Some (max 0 (min 1 (fadd (fmul (1/2) float_0_9) (fmul 1 float_0_1))))"
    by simp
  then have 1: "trait_value (fst (evolve example_personality [''openness'' \<mapsto> 1] example_clock 0))
      ''openness'' = Some (2476979795053773 / 2 ^ 52)"
    unfolding s .
  from inst have 2:
    "dict_get (traits (fst (evolve example_personality [''openness'' \<mapsto> 1] example_clock 0)))
         ''neuroticism''
       = dict_get (traits example_personality) ''neuroticism''"
    by simp
  from d v 1 2 show ?thesis by (intro conjI)
qed

section \<open>Properties of the response generator\<close>

text \<open>
  C8. With the trait mapping \<open>{conscientiousness: 0.9}\<close>, a formality threshold below \<open>0.9\<close>
  and enthusiasm and politeness thresholds of at least \<open>0.5\<close> (the default of the absent
  traits), post-processing \<open>gonna do it.\<close> gives \<open>going to do it.\<close>: the formality rule is
  applied first, and the two later rules, which are not triggered, leave its result alone.
\<close>

theorem adjust_response_style_formality_example:
  assumes "formality_level style < 0.9"
    and "0.5 \<le> enthusiasm_level style"
    and "0.5 \<le> politeness_level style"
  shows "adjust_response_style style ''gonna do it.'' [''conscientiousness'' \<mapsto> 0.9]
           = ''going to do it.''
       \<and> adjust_response_style style ''gonna do it.'' [''conscientiousness'' \<mapsto> 0.9]
           = adjust_formality ''gonna do it.''"
  using assms
  by (simp add: adjust_response_style_def get_or_def adjust_formality_def replace_def)

theorem adjust_response_style_formality_example_witness:
  "formality_level \<lparr>formality_level = 0.7, enthusiasm_level = 0.8, politeness_level = 0.6\<rparr> < 0.9
   \<and> 0.5 \<le> enthusiasm_level \<lparr>formality_level = 0.7, enthusiasm_level = 0.8, politeness_level = 0.6\<rparr>
   \<and> 0.5 \<le> politeness_level \<lparr>formality_level = 0.7, enthusiasm_level = 0.8, politeness_level = 0.6\<rparr>
   \<and> adjust_response_style \<lparr>formality_level = 0.7, enthusiasm_level = 0.8, politeness_level = 0.6\<rparr>
         ''gonna do it.'' [''conscientiousness'' \<mapsto> 0.9] = ''going to do it.''"
  using adjust_response_style_formality_example
    [of "\<lparr>formality_level = 0.7, enthusiasm_level = 0.8, politeness_level = 0.6\<rparr>"]
  by simp


section \<open>Properties of the memory engine\<close>

subsection \<open>The sort of scored pairs\<close>

lemma insert_desc_Cons:
  "insert_desc x (y # ys) =
     (if fst x < fst y
      then (case insert_desc x ys of Inl e \<Rightarrow> Inl e | Inr r \<Rightarrow> Inr (y # r))
      else if fst x = fst y \<and> memory_key (snd x) \<noteq> memory_key (snd y) then Inl TypeError
      else Inr (x # y # ys))"
  by (simp add: tuple_lt_def memory_eq_def)

declare insert_desc.simps(2) [simp del]

lemma insert_desc_error: "insert_desc x ys = Inl e \<Longrightarrow> e = TypeError"
proof (induction ys)
  case Nil
  then show ?case by simp
next
  case (Cons y ys)
  then show ?case
    by (simp add: insert_desc_Cons split: if_splits sum.splits)
qed

lemma insert_desc_set: "insert_desc x ys = Inr r \<Longrightarrow> set r = insert x (set ys)"
proof (induction ys arbitrary: r)
  case Nil
  then show ?case by auto
next
  case (Cons y ys)
  show ?case
  proof (cases "fst x < fst y")
    case True
    with Cons.prems obtain r' where r': "insert_desc x ys = Inr r'" "r = y # r'"
      by (simp add: insert_desc_Cons split: sum.splits)
    from Cons.IH [OF r'(1)] r'(2) show ?thesis by auto
  next
    case False
    with Cons.prems have "r = x # y # ys"
      by (simp add: insert_desc_Cons split: if_splits)
    then show ?thesis by auto
  qed
qed


lemma insert_desc_mset: "insert_desc x ys = Inr r \<Longrightarrow> mset r = add_mset x (mset ys)"
proof (induction ys arbitrary: r)
  case Nil
  then show ?case by auto
next
  case (Cons y ys)
  show ?case
  proof (cases "fst x < fst y")
    case True
    with Cons.prems obtain r' where r': "insert_desc x ys = Inr r'" "r = y # r'"
      by (simp add: insert_desc_Cons split: sum.splits)
    from Cons.IH [OF r'(1)] r'(2) show ?thesis by simp
  next
    case False
    with Cons.prems have "r = x # y # ys"
      by (simp add: insert_desc_Cons split: if_splits)
    then show ?thesis by simp
  qed
qed

lemma insert_desc_sorted:
  "sorted_desc ys \<Longrightarrow> insert_desc x ys = Inr r \<Longrightarrow> sorted_desc r"
proof (induction ys arbitrary: r)
  case Nil
  then show ?case by (auto simp: sorted_desc_def)
next
  case (Cons y ys)
  show ?case
  proof (cases "fst x < fst y")
    case True
    with Cons.prems obtain r' where r': "insert_desc x ys = Inr r'" "r = y # r'"
      by (simp add: insert_desc_Cons split: sum.splits)
    from Cons.prems have "sorted_desc ys" by (simp add: sorted_desc_def)
    from Cons.IH [OF this r'(1)] have "sorted_desc r'" .
    moreover have "\<forall>z\<in>set r'. fst z \<le> fst y"
      using insert_desc_set [OF r'(1)] Cons.prems(1) True by (auto simp: sorted_desc_def)
    ultimately show ?thesis using r'(2) by (simp add: sorted_desc_def)
  next
    case False
    with Cons.prems have "r = x # y # ys"
      by (simp add: insert_desc_Cons split: if_splits)
    moreover have "\<forall>z\<in>set (y # ys). fst z \<le> fst x"
      using Cons.prems(1) False by (auto simp: sorted_desc_def)
    ultimately show ?thesis using Cons.prems(1) by (simp add: sorted_desc_def)
  qed
qed

lemma tie_clash_Cons:
  "tie_clash (x # xs) \<longleftrightarrow> tie_clash xs \<or> (\<exists>y\<in>set xs. fst y = fst x \<and> memory_key (snd y) \<noteq> memory_key (snd x))"
proof
  assume "tie_clash (x # xs)"
  then obtain a b where ab: "a \<in> set (x # xs)" "b \<in> set (x # xs)" "fst a = fst b" "memory_key (snd a) \<noteq> memory_key (snd b)"
    unfolding tie_clash_def by blast
  show "tie_clash xs \<or> (\<exists>y\<in>set xs. fst y = fst x \<and> memory_key (snd y) \<noteq> memory_key (snd x))"
  proof (cases "a = x")
    case ax: True
    with ab have "b \<noteq> x" by blast
    with ab(2) have "b \<in> set xs" by simp
    with ab(3,4) ax show ?thesis by metis
  next
    case False
    with ab(1) have a: "a \<in> set xs" by simp
    show ?thesis
    proof (cases "b = x")
      case True
      with a ab(3,4) show ?thesis by metis
    next
      case False
      with ab(2) have "b \<in> set xs" by simp
      with a ab(3,4) have "tie_clash xs" unfolding tie_clash_def by blast
      then show ?thesis by simp
    qed
  qed
next
  assume "tie_clash xs \<or> (\<exists>y\<in>set xs. fst y = fst x \<and> memory_key (snd y) \<noteq> memory_key (snd x))"
  then show "tie_clash (x # xs)"
  proof
    assume "tie_clash xs"
    then obtain a b where "a \<in> set xs" "b \<in> set xs" "fst a = fst b" "memory_key (snd a) \<noteq> memory_key (snd b)"
      unfolding tie_clash_def by blast
    then have "a \<in> set (x # xs) \<and> b \<in> set (x # xs) \<and> fst a = fst b \<and> memory_key (snd a) \<noteq> memory_key (snd b)"
      by simp
    then show ?thesis unfolding tie_clash_def by blast
  next
    assume "\<exists>y\<in>set xs. fst y = fst x \<and> memory_key (snd y) \<noteq> memory_key (snd x)"
    then obtain y where "y \<in> set xs" "fst y = fst x" "memory_key (snd y) \<noteq> memory_key (snd x)" by blast
    then have "y \<in> set (x # xs) \<and> x \<in> set (x # xs) \<and> fst y = fst x \<and> memory_key (snd y) \<noteq> memory_key (snd x)"
      by simp
    then show ?thesis unfolding tie_clash_def by blast
  qed
qed

lemma tie_clash_set: "set xs = set ys \<Longrightarrow> tie_clash xs = tie_clash ys"
  by (simp add: tie_clash_def)

lemma insert_desc_fails_iff:
  assumes "sorted_desc ys" "\<not> tie_clash ys"
  shows "(\<exists>e. insert_desc x ys = Inl e) \<longleftrightarrow> (\<exists>y\<in>set ys. fst y = fst x \<and> memory_key (snd y) \<noteq> memory_key (snd x))"
  using assms
proof (induction ys)
  case Nil
  then show ?case by simp
next
  case (Cons y ys)
  have s: "sorted_desc ys"
    using Cons.prems(1) by (simp add: sorted_desc_def)
  have c: "\<not> tie_clash ys"
    using Cons.prems(2) by (simp add: tie_clash_Cons)
  note IH = Cons.IH [OF s c]
  consider (lt) "fst x < fst y" | (clash) "fst x = fst y" "memory_key (snd x) \<noteq> memory_key (snd y)"
    | (same) "fst x = fst y" "memory_key (snd x) = memory_key (snd y)" | (gt) "fst y < fst x"
    by fastforce
  then show ?case
  proof cases
    case lt
    then have "insert_desc x (y # ys) =
        (case insert_desc x ys of Inl e \<Rightarrow> Inl e | Inr r \<Rightarrow> Inr (y # r))"
      by (simp add: insert_desc_Cons)
    then have "(\<exists>e. insert_desc x (y # ys) = Inl e) \<longleftrightarrow> (\<exists>e. insert_desc x ys = Inl e)"
      by (simp split: sum.splits)
    with IH lt show ?thesis by auto
  next
    case clash
    then have "insert_desc x (y # ys) = Inl TypeError" by (simp add: insert_desc_Cons)
    with clash show ?thesis by auto
  next
    case same
    then have ok: "insert_desc x (y # ys) = Inr (x # y # ys)" by (simp add: insert_desc_Cons)
    have "\<not> (\<exists>z\<in>set (y # ys). fst z = fst x \<and> memory_key (snd z) \<noteq> memory_key (snd x))"
    proof
      assume "\<exists>z\<in>set (y # ys). fst z = fst x \<and> memory_key (snd z) \<noteq> memory_key (snd x)"
      then obtain z where z: "z \<in> set (y # ys)" "fst z = fst x" "memory_key (snd z) \<noteq> memory_key (snd x)" by blast
      with same have "y \<in> set (y # ys) \<and> z \<in> set (y # ys) \<and> fst y = fst z \<and> memory_key (snd y) \<noteq> memory_key (snd z)"
        by simp
      then have "tie_clash (y # ys)" unfolding tie_clash_def by blast
      with Cons.prems(2) show False by simp
    qed
    with ok show ?thesis by simp
  next
    case gt
    then have ok: "insert_desc x (y # ys) = Inr (x # y # ys)" by (simp add: insert_desc_Cons)
    from gt Cons.prems(1) have "\<forall>z\<in>set (y # ys). fst z < fst x"
      by (auto simp: sorted_desc_def)
    then have "\<not> (\<exists>z\<in>set (y # ys). fst z = fst x \<and> memory_key (snd z) \<noteq> memory_key (snd x))" by auto
    with ok show ?thesis by simp
  qed
qed

lemma sort_reverse_ok:
  "sort_reverse xs = Inr r \<Longrightarrow> set r = set xs \<and> sorted_desc r \<and> \<not> tie_clash xs"
proof (induction xs arbitrary: r)
  case Nil
  then show ?case by (simp add: sorted_desc_def tie_clash_def)
next
  case (Cons x xs)
  from Cons.prems obtain r' where r': "sort_reverse xs = Inr r'" "insert_desc x r' = Inr r"
    by (simp split: sum.splits)
  from Cons.IH [OF r'(1)] have ih: "set r' = set xs" "sorted_desc r'" "\<not> tie_clash xs" by simp_all
  have c': "\<not> tie_clash r'" using ih(1,3) tie_clash_set by blast
  have "\<not> (\<exists>y\<in>set r'. fst y = fst x \<and> memory_key (snd y) \<noteq> memory_key (snd x))"
    using insert_desc_fails_iff [OF ih(2) c', of x] r'(2) by simp
  then have "\<not> tie_clash (x # xs)"
    using ih(1,3) by (simp add: tie_clash_Cons)
  with insert_desc_set [OF r'(2)] insert_desc_sorted [OF ih(2) r'(2)] ih(1)
  show ?case by simp
qed

lemma sort_reverse_mset: "sort_reverse xs = Inr r \<Longrightarrow> mset r = mset xs"
proof (induction xs arbitrary: r)
  case Nil
  then show ?case by simp
next
  case (Cons x xs)
  from Cons.prems obtain r' where r': "sort_reverse xs = Inr r'" "insert_desc x r' = Inr r"
    by (simp split: sum.splits)
  from Cons.IH [OF r'(1)] insert_desc_mset [OF r'(2)] show ?case by simp
qed

lemma sort_reverse_fails:
  "sort_reverse xs = Inl e \<Longrightarrow> e = TypeError \<and> tie_clash xs"
proof (induction xs)
  case Nil
  then show ?case by simp
next
  case (Cons x xs)
  show ?case
  proof (cases "sort_reverse xs")
    case (Inl e')
    with Cons show ?thesis by (simp add: tie_clash_Cons)
  next
    case (Inr r')
    with Cons.prems have f: "insert_desc x r' = Inl e" by simp
    from sort_reverse_ok [OF Inr] have ok: "set r' = set xs" "sorted_desc r'" "\<not> tie_clash xs"
      by simp_all
    have c': "\<not> tie_clash r'" using ok(1,3) tie_clash_set by blast
    have "\<exists>y\<in>set r'. fst y = fst x \<and> memory_key (snd y) \<noteq> memory_key (snd x)"
      using insert_desc_fails_iff [OF ok(2) c', of x] f by blast
    then have "tie_clash (x # xs)" using ok(1) by (simp add: tie_clash_Cons)
    with insert_desc_error [OF f] show ?thesis by simp
  qed
qed

lemma sort_reverse_fails_iff: "sort_reverse xs = Inl TypeError \<longleftrightarrow> tie_clash xs"
proof
  assume "sort_reverse xs = Inl TypeError"
  then show "tie_clash xs" using sort_reverse_fails by blast
next
  assume c: "tie_clash xs"
  show "sort_reverse xs = Inl TypeError"
  proof (cases "sort_reverse xs")
    case (Inl e)
    with sort_reverse_fails show ?thesis by blast
  next
    case (Inr r)
    with sort_reverse_ok c show ?thesis by blast
  qed
qed


lemma json_native_reload: "json_native v \<Longrightarrow> json_serializable v \<and> json_reload v = v"
proof (induction v)
  case (PList xs)
  then have "\<forall>x\<in>set xs. json_serializable x \<and> json_reload x = x"
    by (simp add: list_all_iff)
  then show ?case by (simp add: list_all_iff map_idI)
next
  case (PDict kvs)
  then have a: "\<forall>v\<in>set (map snd kvs). json_serializable v \<and> json_reload v = v"
    by (fastforce simp: list_all_iff)
  then have "map json_reload (map snd kvs) = map snd kvs"
    by (intro map_idI) blast
  then have "zip (map fst kvs) (map json_reload (map snd kvs)) = kvs"
    by (simp only: zip_map_fst_snd)
  with a show ?case by (simp add: list_all_iff)
qed simp_all

lemma memory_native_reload:
  "memory_json_native m \<Longrightarrow> memory_serializable m \<and> memory_reload m = m"
proof -
  assume n: "memory_json_native m"
  then have a: "\<forall>v\<in>set (map snd (metadata m)). json_serializable v \<and> json_reload v = v"
    using json_native_reload by (simp add: memory_json_native_def list_all_iff)
  then have "map json_reload (map snd (metadata m)) = map snd (metadata m)"
    by (intro map_idI) blast
  then have "zip (map fst (metadata m)) (map json_reload (map snd (metadata m))) = metadata m"
    by (simp only: zip_map_fst_snd)
  with a show ?thesis by (simp add: memory_serializable_def memory_reload_def list_all_iff)
qed

lemma similarities_loop_Cons:
  "similarities_loop dot q (m # ms) =
     (if length q \<noteq> length (embedding m) then Inl ValueError
      else (case similarities_loop dot q ms of
              Inl e \<Rightarrow> Inl e
            | Inr rest \<Rightarrow> Inr ((dot q (embedding m), m) # rest)))"
  by (simp add: np_dot_def)

lemma similarities_loop_ok_iff:
  "similarities_loop dot q ms = Inr r \<longleftrightarrow>
     (\<forall>m\<in>set ms. length (embedding m) = length q)
     \<and> r = map (\<lambda>m. (dot q (embedding m), m)) ms"
proof (induction ms arbitrary: r)
  case Nil
  then show ?case by auto
next
  case (Cons m ms)
  show ?case
  proof (cases "length q = length (embedding m)")
    case False
    then show ?thesis by (simp add: similarities_loop_Cons del: similarities_loop.simps)
  next
    case True
    show ?thesis
    proof (cases "similarities_loop dot q ms")
      case (Inl e)
      with Cons [of "map (\<lambda>m. (dot q (embedding m), m)) ms"] True
      show ?thesis
        by (simp add: similarities_loop_Cons del: similarities_loop.simps) 
    next
      case (Inr rest)
      with Cons [of rest] True show ?thesis
        by (simp add: similarities_loop_Cons del: similarities_loop.simps) metis
    qed
  qed
qed

lemma similarities_loop_error: "similarities_loop dot q ms = Inl e \<Longrightarrow> e = ValueError"
proof (induction ms)
  case Nil
  then show ?case by simp
next
  case (Cons m ms)
  then show ?case
    by (simp add: similarities_loop_Cons del: similarities_loop.simps split: if_splits sum.splits)
qed

declare similarities_loop.simps(2) [simp del]

lemma relevant_body_fails_iff:
  "(\<exists>e. relevant_body dot ms query limit memory_type = Inl e) \<longleftrightarrow>
     (\<exists>e. llm_embed ms query = Inl e)
     \<or> (\<exists>q. llm_embed ms query = Inr q
            \<and> ((\<exists>m\<in>set (filter_type memory_type (memories ms)). length (embedding m) \<noteq> length q)
                 \<or> tie_clash (scored dot q (filter_type memory_type (memories ms)))))"
proof (cases "llm_embed ms query")
  case (Inl e)
  then show ?thesis by (simp add: relevant_body_def)
next
  case (Inr q)
  let ?ms = "filter_type memory_type (memories ms)"
  show ?thesis
  proof (cases "similarities_loop dot q ?ms")
    case (Inl e)
    then have "\<not> (\<forall>m\<in>set ?ms. length (embedding m) = length q)"
      using similarities_loop_ok_iff [of dot q ?ms "scored dot q ?ms"] by (simp add: scored_def)
    with Inr Inl show ?thesis by (auto simp: relevant_body_def)
  next
    case sims: (Inr r)
    then have ok: "\<forall>m\<in>set ?ms. length (embedding m) = length q" and r: "r = scored dot q ?ms"
      using similarities_loop_ok_iff [of dot q ?ms r] by (simp_all add: scored_def)
    show ?thesis
    proof (cases "sort_reverse r")
      case (Inl e)
      then have "tie_clash r" using sort_reverse_fails by blast
      with Inr sims Inl r show ?thesis by (auto simp: relevant_body_def)
    next
      case srt: (Inr ranked)
      then have "\<not> tie_clash r" using sort_reverse_ok by blast
      with Inr sims srt r ok show ?thesis by (auto simp: relevant_body_def)
    qed
  qed
qed

text \<open>
  What \<open>get_relevant_memories\<close> returns when nothing fails: the first \<open>limit\<close> memories of a
  rearrangement of the scored pairs in descending order of similarity.
\<close>

lemma get_relevant_memories_ranked:
  assumes "llm_embed ms query = Inr q"
    and "\<forall>m\<in>set (filter_type memory_type (memories ms)). length (embedding m) = length q"
    and "\<not> tie_clash (scored dot q (filter_type memory_type (memories ms)))"
  shows "\<exists>ranked. get_relevant_memories dot ms query limit memory_type = map snd (slice_to ranked limit)
           \<and> sorted_desc ranked
           \<and> mset ranked = mset (scored dot q (filter_type memory_type (memories ms)))"
proof -
  let ?ms = "filter_type memory_type (memories ms)"
  have sims: "similarities_loop dot q ?ms = Inr (scored dot q ?ms)"
    using assms(2) similarities_loop_ok_iff [of dot q ?ms "scored dot q ?ms"] by (simp add: scored_def)
  obtain ranked where srt: "sort_reverse (scored dot q ?ms) = Inr ranked"
    using assms(3) sort_reverse_fails [of "scored dot q ?ms"] by (cases "sort_reverse (scored dot q ?ms)") auto
  from sort_reverse_ok [OF srt] sort_reverse_mset [OF srt] assms(1) sims srt show ?thesis
    by (auto simp: get_relevant_memories_def relevant_body_def)
qed

lemma length_slice_to: "0 \<le> n \<Longrightarrow> length (slice_to xs n) \<le> nat n"
  by (simp add: slice_to_def)



text \<open>Equality of memories ignores the order of metadata keys and the kind of a number.\<close>

lemma memory_eq_as_dicts:
  "memory_eq (met_ann\<lparr>metadata := [(''id'', PInt 1), (''seen'', PBool True)]\<rparr>)
             (met_ann\<lparr>metadata := [(''seen'', PInt 1), (''id'', PFloat 1)]\<rparr>)"
  by (simp add: memory_eq_def memory_key_def met_ann_def)

text \<open>
  C1. \<open>get_relevant_memories\<close> is to return at most \<open>limit\<close> records by descending
  similarity, records of equal similarity in their original order. The store of the example
  holds two different records with the same embedding, so their similarities to any query
  are equal whatever the inner product computes: the sort compares the two dicts, the
  \<open>TypeError\<close> is caught, and the result is the empty list although both records are retained
  and \<open>limit\<close> is \<open>5\<close>.
\<close>

theorem get_relevant_memories_tied_scores:
  "get_relevant_memories dot example_store ''tea'' 5 None = []
   \<and> relevant_body dot example_store ''tea'' 5 None = Inl TypeError
   \<and> memories example_store = [met_ann, likes_tea]
   \<and> scored dot [1, 0] (memories example_store)
       = [(dot [1, 0] [1, 0], met_ann), (dot [1, 0] [1, 0], likes_tea)]"
  by (simp add: get_relevant_memories_def relevant_body_def example_store_def filter_type_def
      similarities_loop_Cons insert_desc_Cons met_ann_def likes_tea_def scored_def
      memory_key_def)

text \<open>
  C5. Whenever the body of \<open>get_relevant_memories\<close> raises, the operation returns the empty
  list: when the embedding call fails, when a retained record has an embedding whose length
  differs from the query's, and when two retained records of equal similarity are different
  dicts. When none of these happens it returns the first \<open>limit\<close> memories of the scored pairs
  arranged by descending similarity.
\<close>

theorem get_relevant_memories_soft_fail:
  "(relevant_body dot ms query limit memory_type = Inl e \<longrightarrow>
      get_relevant_memories dot ms query limit memory_type = [])
   \<and> (llm_embed ms query = Inl e \<longrightarrow>
        get_relevant_memories dot ms query limit memory_type = [])
   \<and> (llm_embed ms query = Inr q
        \<and> (\<exists>m\<in>set (filter_type memory_type (memories ms)). length (embedding m) \<noteq> length q) \<longrightarrow>
        get_relevant_memories dot ms query limit memory_type = [])
   \<and> (llm_embed ms query = Inr q
        \<and> tie_clash (scored dot q (filter_type memory_type (memories ms))) \<longrightarrow>
        get_relevant_memories dot ms query limit memory_type = [])
   \<and> (llm_embed ms query = Inr q
        \<and> (\<forall>m\<in>set (filter_type memory_type (memories ms)). length (embedding m) = length q)
        \<and> \<not> tie_clash (scored dot q (filter_type memory_type (memories ms))) \<longrightarrow>
        (\<exists>ranked. get_relevant_memories dot ms query limit memory_type
                     = map snd (slice_to ranked limit)
           \<and> sorted_desc ranked
           \<and> mset ranked = mset (scored dot q (filter_type memory_type (memories ms)))))"
proof (intro conjI impI)
  assume "relevant_body dot ms query limit memory_type = Inl e"
  then show "get_relevant_memories dot ms query limit memory_type = []"
    by (simp add: get_relevant_memories_def)
next
  assume "llm_embed ms query = Inl e"
  then have "\<exists>e. relevant_body dot ms query limit memory_type = Inl e"
    using relevant_body_fails_iff [of dot ms query limit memory_type] by blast
  then show "get_relevant_memories dot ms query limit memory_type = []"
    by (auto simp: get_relevant_memories_def)
next
  assume "llm_embed ms query = Inr q
        \<and> (\<exists>m\<in>set (filter_type memory_type (memories ms)). length (embedding m) \<noteq> length q)"
  then have "\<exists>e. relevant_body dot ms query limit memory_type = Inl e"
    using relevant_body_fails_iff [of dot ms query limit memory_type] by blast
  then show "get_relevant_memories dot ms query limit memory_type = []"
    by (auto simp: get_relevant_memories_def)
next
  assume "llm_embed ms query = Inr q
        \<and> tie_clash (scored dot q (filter_type memory_type (memories ms)))"
  then have "\<exists>e. relevant_body dot ms query limit memory_type = Inl e"
    using relevant_body_fails_iff [of dot ms query limit memory_type] by blast
  then show "get_relevant_memories dot ms query limit memory_type = []"
    by (auto simp: get_relevant_memories_def)
next
  assume "llm_embed ms query = Inr q
        \<and> (\<forall>m\<in>set (filter_type memory_type (memories ms)). length (embedding m) = length q)
        \<and> \<not> tie_clash (scored dot q (filter_type memory_type (memories ms)))"
  then show "\<exists>ranked. get_relevant_memories dot ms query limit memory_type
                     = map snd (slice_to ranked limit)
           \<and> sorted_desc ranked
           \<and> mset ranked = mset (scored dot q (filter_type memory_type (memories ms)))"
    using get_relevant_memories_ranked [of ms query q memory_type dot limit] by blast
qed

theorem get_relevant_memories_soft_fail_witness:
  "relevant_body example_dot offline_store ''tea'' 5 None = Inl ProviderError
   \<and> get_relevant_memories example_dot offline_store ''tea'' 5 None = []
   \<and> llm_embed short_query_store ''tea'' = Inr [1]
   \<and> map (\<lambda>m. length (embedding m)) (memories short_query_store) = [2, 2]
   \<and> get_relevant_memories example_dot short_query_store ''tea'' 5 None = []
   \<and> scored example_dot [1, 0] (memories example_store) = [(1, met_ann), (1, likes_tea)]
   \<and> get_relevant_memories example_dot example_store ''tea'' 5 None = []
   \<and> scored example_dot [1, 0] (memories ranked_store)
       = [(0, met_ann\<lparr>embedding := [0, 1]\<rparr>), (1, likes_tea)]
   \<and> get_relevant_memories example_dot ranked_store ''tea'' 1 None = [likes_tea]"
proof -
  note soft = get_relevant_memories_soft_fail
  \<comment> \<open>the embedding service is down\<close>
  have b1: "relevant_body example_dot offline_store ''tea'' 5 None = Inl ProviderError"
    by (simp add: relevant_body_def offline_store_def example_store_def)
  have e1: "llm_embed offline_store ''tea'' = Inl ProviderError"
    by (simp add: offline_store_def example_store_def)
  have w1: "get_relevant_memories example_dot offline_store ''tea'' 5 None = []"
    using soft [of example_dot offline_store "''tea''" 5 None ProviderError] b1 e1 by blast
  \<comment> \<open>the query embedding is shorter than the stored ones\<close>
  have e2: "llm_embed short_query_store ''tea'' = Inr [1]"
    by (simp add: short_query_store_def example_store_def)
  have l2: "map (\<lambda>m. length (embedding m)) (memories short_query_store) = [2, 2]"
    by (simp add: short_query_store_def example_store_def met_ann_def likes_tea_def)
  have m2: "\<exists>m\<in>set (filter_type None (memories short_query_store)).
      length (embedding m) \<noteq> length [1::real]"
    by (simp add: short_query_store_def example_store_def met_ann_def filter_type_def)
  have w2: "get_relevant_memories example_dot short_query_store ''tea'' 5 None = []"
    using soft [of example_dot short_query_store "''tea''" 5 None _ "[1]"] e2 m2 by blast
  \<comment> \<open>two different records of equal similarity\<close>
  have e3: "llm_embed example_store ''tea'' = Inr [1, 0]"
    by (simp add: example_store_def)
  have s3: "scored example_dot [1, 0] (memories example_store) = [(1, met_ann), (1, likes_tea)]"
    by (simp add: scored_def example_store_def example_dot_def met_ann_def likes_tea_def)
  have "memory_key met_ann \<noteq> memory_key likes_tea"
    by (simp add: memory_key_def met_ann_def likes_tea_def)
  then have c3: "tie_clash (scored example_dot [1, 0] (filter_type None (memories example_store)))"
    by (simp add: filter_type_def s3 tie_clash_def)
  have w3: "get_relevant_memories example_dot example_store ''tea'' 5 None = []"
    using soft [of example_dot example_store "''tea''" 5 None _ "[1, 0]"] e3 c3 by blast
  \<comment> \<open>different similarities\<close>
  have e4: "llm_embed ranked_store ''tea'' = Inr [1, 0]"
    by (simp add: ranked_store_def example_store_def)
  have s4: "scored example_dot [1, 0] (memories ranked_store)
       = [(0, met_ann\<lparr>embedding := [0, 1]\<rparr>), (1, likes_tea)]"
    by (simp add: scored_def ranked_store_def example_store_def example_dot_def met_ann_def
        likes_tea_def)
  have l4: "\<forall>m\<in>set (filter_type None (memories ranked_store)).
      length (embedding m) = length [1::real, 0]"
    by (simp add: ranked_store_def example_store_def met_ann_def likes_tea_def filter_type_def)
  have c4: "\<not> tie_clash (scored example_dot [1, 0] (filter_type None (memories ranked_store)))"
    by (simp add: filter_type_def s4 tie_clash_def)
  from soft [of example_dot ranked_store "''tea''" 1 None _ "[1, 0]"] e4 l4 c4
  obtain ranked where r: "get_relevant_memories example_dot ranked_store ''tea'' 1 None
        = map snd (slice_to ranked 1)"
      "sorted_desc ranked"
      "mset ranked = mset (scored example_dot [1, 0] (filter_type None (memories ranked_store)))"
    by blast
  have w4: "get_relevant_memories example_dot ranked_store ''tea'' 1 None = [likes_tea]"
    by (simp add: get_relevant_memories_def relevant_body_def ranked_store_def example_store_def
        filter_type_def similarities_loop_Cons insert_desc_Cons example_dot_def slice_to_def
        met_ann_def likes_tea_def)
  from b1 w1 e2 l2 w2 s3 w3 s4 w4 show ?thesis by (intro conjI)
qed

subsection \<open>Capacity\<close>

lemma add_memory_fifo:
  assumes "1 \<le> max_memories ms"
    and "int (length (memories ms)) \<le> max_memories ms"
    and "llm_embed ms text = Inr emb"
  shows "\<exists>ms'. add_memory ms text memory_type meta now = Inr ms'
     \<and> memories ms' =
         (if int (length (memories ms)) < max_memories ms then memories ms else tl (memories ms))
         @ [\<lparr>content = text, type' = memory_type, embedding = emb, timestamp = now,
              metadata = (case meta of None \<Rightarrow> [] | Some d \<Rightarrow> d)\<rparr>]
     \<and> int (length (memories ms')) \<le> max_memories ms'
     \<and> max_memories ms' = max_memories ms"
proof (cases "int (length (memories ms)) < max_memories ms")
  case True
  with assms show ?thesis
    by (simp add: add_memory_def Let_def save_memories_def)
next
  case False
  with assms(2) have full: "int (length (memories ms)) = max_memories ms" by simp
  with assms(1) have ne: "memories ms \<noteq> []" by auto
  obtain y ys where ys: "memories ms = y # ys" using ne by (cases "memories ms") auto
  have n: "nat (max_memories ms) = length (memories ms)" using full by simp
  have "Suc (length (memories ms)) - nat (max_memories ms) = Suc 0"
    unfolding n by simp
  then have "drop (Suc (length (memories ms)) - nat (max_memories ms)) (memories ms @ [x])
      = tl (memories ms) @ [x]" for x
    using ys by simp
  with assms(1,3) full ne show ?thesis
    by (simp add: add_memory_def Let_def save_memories_def slice_from_def)
qed

text \<open>
  C3. With \<open>max_memories = 0\<close> the trim is \<open>self.memories[-0:]\<close>, the whole list: after one
  \<open>add_memory\<close> on the empty store the collection holds one record, more than the cap.
\<close>

theorem add_memory_zero_capacity:
  "(case add_memory zero_capacity_store ''met Ann'' ''episodic'' None ''2024-01-01T09:00:00'' of
      Inl e \<Rightarrow> None
    | Inr ms \<Rightarrow> Some (length (memories ms), max_memories ms)) = Some (1, 0)
   \<and> int (length (memories zero_capacity_store)) \<le> max_memories zero_capacity_store"
  by (simp add: add_memory_def zero_capacity_store_def slice_from_def save_memories_def
      memory_serializable_def Let_def)

subsection \<open>Persistence\<close>

text \<open>
  C9, as stated, fails on a record whose metadata holds a tuple: the file stores an array,
  and loading gives a list.
\<close>

theorem save_load_tuple_metadata:
  "memories (load_memories (save_memories tuple_store)) \<noteq> memories tuple_store"
  by (simp add: tuple_store_def save_memories_def load_memories_def memory_serializable_def
      memory_reload_def met_ann_def)

text \<open>
  C9, amended. For every collection whose metadata values are JSON-native, saving writes
  that very sequence to the file, and loading the file gives it back: into the store that
  saved it and into any other store on the same file, such as the one whose constructor
  loads it onto an empty list.
\<close>

theorem save_load_roundtrip_json_native:
  assumes "list_all memory_json_native (memories ms)"
  shows "memories (load_memories (save_memories ms)) = memories ms
       \<and> memory_file (save_memories ms) = Document (memories ms)
       \<and> (memory_file ms' = memory_file (save_memories ms) \<longrightarrow>
            memories (load_memories ms') = memories ms)"
proof -
  from assms have a: "\<forall>m\<in>set (memories ms). memory_serializable m \<and> memory_reload m = m"
    using memory_native_reload by (simp add: list_all_iff)
  then have "list_all memory_serializable (memories ms)" by (simp add: list_all_iff)
  moreover from a have "map memory_reload (memories ms) = memories ms"
    by (intro map_idI) simp
  ultimately have f: "memory_file (save_memories ms) = Document (memories ms)"
    by (simp add: save_memories_def)
  then show ?thesis by (simp add: load_memories_def)
qed

theorem save_load_roundtrip_json_native_witness:
  "list_all memory_json_native (memories example_store)
   \<and> memories (load_memories (save_memories example_store)) = [met_ann, likes_tea]
   \<and> memories zero_capacity_store = []
   \<and> memories (load_memories
        (zero_capacity_store\<lparr>memory_file := memory_file (save_memories example_store)\<rparr>))
       = [met_ann, likes_tea]"
proof -
  have n: "list_all memory_json_native (memories example_store)"
    by (simp add: example_store_def memory_json_native_def met_ann_def likes_tea_def)
  have f: "memory_file (zero_capacity_store\<lparr>memory_file := memory_file (save_memories example_store)\<rparr>)
      = memory_file (save_memories example_store)"
    by simp
  note inst = save_load_roundtrip_json_native
    [OF n, of "zero_capacity_store\<lparr>memory_file := memory_file (save_memories example_store)\<rparr>"]
  from inst f have "memories (load_memories
        (zero_capacity_store\<lparr>memory_file := memory_file (save_memories example_store)\<rparr>))
       = memories example_store"
    by blast
  moreover from inst have "memories (load_memories (save_memories example_store))
       = memories example_store"
    by blast
  moreover have "memories example_store = [met_ann, likes_tea]" by (simp add: example_store_def)
  moreover have "memories zero_capacity_store = []" by (simp add: zero_capacity_store_def)
  ultimately show ?thesis using n by simp
qed

subsection \<open>Reads that reorder the store\<close>

lemma set_sort_by_timestamp: "set (sort_by_timestamp xs) = set xs"
  by (simp add: sort_by_timestamp_def)

lemma length_sort_by_timestamp: "length (sort_by_timestamp xs) = length xs"
  by (simp add: sort_by_timestamp_def)

lemma sorted_sort_by_timestamp: "sorted (rev (map timestamp (sort_by_timestamp xs)))"
  by (simp add: sort_by_timestamp_def rev_map)

lemma stable_sort_by_timestamp:
  "filter (\<lambda>m. timestamp m = k) (sort_by_timestamp xs) = filter (\<lambda>m. timestamp m = k) xs"
proof -
  have "filter (\<lambda>m. timestamp m = k) (sort_by_timestamp xs)
      = rev (filter (\<lambda>m. timestamp m = k) (sort_key timestamp (rev xs)))"
    by (simp add: sort_by_timestamp_def rev_filter)
  also have "\<dots> = rev (filter (\<lambda>m. timestamp m = k) (rev xs))"
    by (simp only: sort_key_stable)
  also have "\<dots> = filter (\<lambda>m. timestamp m = k) xs"
    by (simp add: rev_filter)
  finally show ?thesis .
qed

lemma sorted_le_last: "sorted ys \<Longrightarrow> x \<in> set ys \<Longrightarrow> x \<le> last ys"
proof (induction ys)
  case Nil
  then show ?case by simp
next
  case (Cons y ys)
  show ?case
  proof (cases "ys = []")
    case True
    with Cons.prems show ?thesis by simp
  next
    case False
    then have l: "last (y # ys) = last ys" by simp
    have ly: "last ys \<in> set ys" using False by simp
    show ?thesis
    proof (cases "x = y")
      case True
      with Cons.prems(1) ly l show ?thesis by auto
    next
      case False
      with Cons.prems have "x \<in> set ys" "sorted ys" by simp_all
      with Cons.IH l show ?thesis by simp
    qed
  qed
qed

lemma hd_sort_by_timestamp_latest:
  assumes "m \<in> set xs"
  shows "timestamp m \<le> timestamp (hd (sort_by_timestamp xs))"
proof -
  let ?ys = "sort_key timestamp (rev xs)"
  have ne: "?ys \<noteq> []"
  proof
    assume "?ys = []"
    then have "length ?ys = 0" by (simp only: list.size)
    then have "xs = []" by simp
    with assms show False by simp
  qed
  have m: "timestamp m \<in> set (map timestamp ?ys)" using assms by simp
  have "sorted (map timestamp ?ys)" by simp
  from sorted_le_last [OF this m] have "timestamp m \<le> last (map timestamp ?ys)" .
  also have "\<dots> = timestamp (last ?ys)" using ne by (simp add: last_map)
  also have "\<dots> = timestamp (hd (sort_by_timestamp xs))"
    using ne by (simp add: sort_by_timestamp_def hd_rev)
  finally show ?thesis .
qed

lemma add_memory_full:
  assumes "memories ms \<noteq> []"
    and "max_memories ms = int (length (memories ms))"
    and "llm_embed ms text = Inr emb"
  shows "\<exists>ms'. add_memory ms text memory_type meta now = Inr ms'
     \<and> memories ms' = tl (memories ms)
         @ [\<lparr>content = text, type' = memory_type, embedding = emb, timestamp = now,
              metadata = (case meta of None \<Rightarrow> [] | Some d \<Rightarrow> d)\<rparr>]"
proof -
  obtain y ys where ys: "memories ms = y # ys" using assms(1) by (cases "memories ms") auto
  have n: "nat (max_memories ms) = length (memories ms)" using assms(2) by simp
  have "Suc (length (memories ms)) - nat (max_memories ms) = Suc 0"
    unfolding n by simp
  then have "drop (Suc (length (memories ms)) - nat (max_memories ms)) (memories ms @ [x])
      = tl (memories ms) @ [x]" for x
    using ys by simp
  with assms show ?thesis
    by (simp add: add_memory_def Let_def save_memories_def slice_from_def)
qed

text \<open>
  C10. Called without a type filter (\<open>None\<close> or the empty string), \<open>get_recent_memories\<close> sorts
  \<open>self.memories\<close> itself, and \<open>get_memories_for_reflection\<close> always does: afterwards the store
  holds the same records (as a multiset) ordered by timestamp, latest first, records with
  equal timestamps in their former order. The next \<open>add_memory\<close> on a full store then drops the head of that
  list, the record with the latest timestamp, so the records with the smallest timestamps
  are dropped last.
\<close>

theorem recent_reads_sort_the_store:
  assumes "\<not> truthy memory_type"
  shows "get_recent_memories ms limit memory_type
           = (slice_to (sort_by_timestamp (memories ms)) limit,
              ms\<lparr>memories := sort_by_timestamp (memories ms)\<rparr>)
       \<and> get_memories_for_reflection ms time_period limit
           = (slice_to (sort_by_timestamp (memories ms)) limit,
              ms\<lparr>memories := sort_by_timestamp (memories ms)\<rparr>)
       \<and> sorted (rev (map timestamp (sort_by_timestamp (memories ms))))
       \<and> mset (sort_by_timestamp (memories ms)) = mset (memories ms)
       \<and> (\<forall>k. filter (\<lambda>m. timestamp m = k) (sort_by_timestamp (memories ms))
                = filter (\<lambda>m. timestamp m = k) (memories ms))
       \<and> (memories ms \<noteq> [] \<and> max_memories ms = int (length (memories ms))
            \<and> llm_embed ms entry = Inr emb \<longrightarrow>
           (\<exists>ms'. add_memory (snd (get_recent_memories ms limit memory_type)) entry mtype meta now
                     = Inr ms'
              \<and> memories ms' = tl (sort_by_timestamp (memories ms))
                  @ [\<lparr>content = entry, type' = mtype, embedding = emb, timestamp = now,
                       metadata = (case meta of None \<Rightarrow> [] | Some d \<Rightarrow> d)\<rparr>]
              \<and> (\<forall>m\<in>set (memories ms).
                    timestamp m \<le> timestamp (hd (sort_by_timestamp (memories ms))))))"
proof -
  have recent: "get_recent_memories ms limit memory_type
           = (slice_to (sort_by_timestamp (memories ms)) limit,
              ms\<lparr>memories := sort_by_timestamp (memories ms)\<rparr>)"
    using assms by (simp add: get_recent_memories_def Let_def)
  have trim: "\<exists>ms'. add_memory (snd (get_recent_memories ms limit memory_type)) entry mtype meta now
                     = Inr ms'
              \<and> memories ms' = tl (sort_by_timestamp (memories ms))
                  @ [\<lparr>content = entry, type' = mtype, embedding = emb, timestamp = now,
                       metadata = (case meta of None \<Rightarrow> [] | Some d \<Rightarrow> d)\<rparr>]"
    if h: "memories ms \<noteq> [] \<and> max_memories ms = int (length (memories ms))
            \<and> llm_embed ms entry = Inr emb"
  proof -
    let ?ms1 = "ms\<lparr>memories := sort_by_timestamp (memories ms)\<rparr>"
    have "length (sort_by_timestamp (memories ms)) \<noteq> 0"
      using h by (simp add: length_sort_by_timestamp)
    then have "memories ?ms1 \<noteq> []" by simp
    moreover have "max_memories ?ms1 = int (length (memories ?ms1))"
      using h by (simp add: length_sort_by_timestamp)
    moreover have "llm_embed ?ms1 entry = Inr emb" using h by simp
    ultimately show ?thesis
      using add_memory_full [of ?ms1 entry emb mtype meta now] recent by simp
  qed
  have latest: "\<forall>m\<in>set (memories ms).
      timestamp m \<le> timestamp (hd (sort_by_timestamp (memories ms)))"
    using hd_sort_by_timestamp_latest by blast
  have refl: "get_memories_for_reflection ms time_period limit
           = (slice_to (sort_by_timestamp (memories ms)) limit,
              ms\<lparr>memories := sort_by_timestamp (memories ms)\<rparr>)"
    by (simp add: get_memories_for_reflection_def Let_def)
  show ?thesis
  proof (intro conjI allI impI)
    show "get_recent_memories ms limit memory_type
           = (slice_to (sort_by_timestamp (memories ms)) limit,
              ms\<lparr>memories := sort_by_timestamp (memories ms)\<rparr>)" by (rule recent)
    show "get_memories_for_reflection ms time_period limit
           = (slice_to (sort_by_timestamp (memories ms)) limit,
              ms\<lparr>memories := sort_by_timestamp (memories ms)\<rparr>)" by (rule refl)
    show "sorted (rev (map timestamp (sort_by_timestamp (memories ms))))"
      by (rule sorted_sort_by_timestamp)
    show "mset (sort_by_timestamp (memories ms)) = mset (memories ms)"
      by (simp add: sort_by_timestamp_def)
    show "filter (\<lambda>m. timestamp m = k) (sort_by_timestamp (memories ms))
                = filter (\<lambda>m. timestamp m = k) (memories ms)" for k
      by (rule stable_sort_by_timestamp)
    assume h: "memories ms \<noteq> [] \<and> max_memories ms = int (length (memories ms))
            \<and> llm_embed ms entry = Inr emb"
    from trim [OF h] latest
    show "\<exists>ms'. add_memory (snd (get_recent_memories ms limit memory_type)) entry mtype meta now
                     = Inr ms'
              \<and> memories ms' = tl (sort_by_timestamp (memories ms))
                  @ [\<lparr>content = entry, type' = mtype, embedding = emb, timestamp = now,
                       metadata = (case meta of None \<Rightarrow> [] | Some d \<Rightarrow> d)\<rparr>]
              \<and> (\<forall>m\<in>set (memories ms).
                    timestamp m \<le> timestamp (hd (sort_by_timestamp (memories ms))))"
      by blast
  qed
qed

theorem recent_reads_sort_the_store_witness:
  "\<not> truthy None
   \<and> memories example_store = [met_ann, likes_tea]
   \<and> memories (snd (get_recent_memories example_store 10 None)) = [likes_tea, met_ann]
   \<and> (\<exists>ms'. add_memory (snd (get_recent_memories example_store 10 None))
                ''Ann moved'' ''semantic'' None ''2024-01-03T09:00:00'' = Inr ms'
          \<and> memories ms' =
               [met_ann,
                \<lparr>content = ''Ann moved'', type' = ''semantic'', embedding = [1, 0],
                 timestamp = ''2024-01-03T09:00:00'', metadata = []\<rparr>])"
proof -
  have t: "\<not> truthy None" by (simp add: truthy_def)
  have s: "sort_by_timestamp (memories example_store) = [likes_tea, met_ann]"
    by (simp add: example_store_def sort_by_timestamp_def met_ann_def likes_tea_def)
  have h: "memories example_store \<noteq> []
      \<and> max_memories example_store = int (length (memories example_store))
      \<and> llm_embed example_store ''Ann moved'' = Inr [1, 0]"
    by (simp add: example_store_def)
  note inst = recent_reads_sort_the_store
    [OF t, where ms = example_store and limit = 10 and entry = "''Ann moved''"
       and emb = "[1, 0]" and mtype = "''semantic''" and meta = None
       and now = "''2024-01-03T09:00:00''" and time_period = None]
  from inst have "get_recent_memories example_store 10 None
           = (slice_to (sort_by_timestamp (memories example_store)) 10,
              example_store\<lparr>memories := sort_by_timestamp (memories example_store)\<rparr>)"
    by (rule conjunct1)
  with s have r: "memories (snd (get_recent_memories example_store 10 None)) = [likes_tea, met_ann]"
    by simp
  from inst h have "\<exists>ms'. add_memory (snd (get_recent_memories example_store 10 None))
                ''Ann moved'' ''semantic'' None ''2024-01-03T09:00:00'' = Inr ms'
          \<and> memories ms' = tl (sort_by_timestamp (memories example_store))
                  @ [\<lparr>content = ''Ann moved'', type' = ''semantic'', embedding = [1, 0],
                      timestamp = ''2024-01-03T09:00:00'',
                      metadata = (case None of None \<Rightarrow> [] | Some d \<Rightarrow> d)\<rparr>]"
    by blast
  with s have a: "\<exists>ms'. add_memory (snd (get_recent_memories example_store 10 None))
                ''Ann moved'' ''semantic'' None ''2024-01-03T09:00:00'' = Inr ms'
          \<and> memories ms' =
               [met_ann,
                \<lparr>content = ''Ann moved'', type' = ''semantic'', embedding = [1, 0],
                 timestamp = ''2024-01-03T09:00:00'', metadata = []\<rparr>]"
    by simp
  have m: "memories example_store = [met_ann, likes_tea]" by (simp add: example_store_def)
  from t m r a show ?thesis by (intro conjI)
qed

section \<open>Properties of the section parser\<close>

lemma words_line_step:
  "words_line raw (store_section secs cur items, open_name cur) =
     (case parse_line raw (secs, cur, items) of
        (secs', cur', items') \<Rightarrow> (store_section secs' cur' items', open_name cur'))"
proof (cases "strip raw = []")
  case True
  then show ?thesis by (simp add: words_line_def parse_line_def)
next
  case ne: False
  show ?thesis
  proof (cases "endswith (strip raw) '':''")
    case True
    with ne show ?thesis
      by (simp add: words_line_def parse_line_def Let_def store_section_def open_name_def truthy_def)
  next
    case nh: False
    show ?thesis
    proof (cases "startswith (strip raw) ''- ''")
      case False
      with ne nh show ?thesis by (simp add: words_line_def parse_line_def)
    next
      case True
      show ?thesis
      proof (cases cur)
        case None
        with ne nh True show ?thesis
          by (simp add: words_line_def parse_line_def Let_def store_section_def open_name_def
              truthy_def)
      next
        case (Some nm)
        with ne nh True show ?thesis
          by (cases "nm = []")
             (simp_all add: words_line_def parse_line_def Let_def store_section_def open_name_def
               truthy_def)
      qed
    qed
  qed
qed

lemma words_fold:
  "fold words_line ls (store_section secs cur items, open_name cur) =
     (case fold parse_line ls (secs, cur, items) of
        (secs', cur', items') \<Rightarrow> (store_section secs' cur' items', open_name cur'))"
proof (induction ls arbitrary: secs cur items)
  case Nil
  then show ?case by simp
next
  case (Cons l ls)
  obtain secs1 cur1 items1 where p: "parse_line l (secs, cur, items) = (secs1, cur1, items1)"
    by (cases "parse_line l (secs, cur, items)")
  have "fold words_line (l # ls) (store_section secs cur items, open_name cur)
      = fold words_line ls (store_section secs1 cur1 items1, open_name cur1)"
    using words_line_step [of l secs cur items] p by simp
  with Cons.IH [of secs1 cur1 items1] p show ?case by simp
qed

lemma parse_is_words: "parse_reflection_sections t = sections_by_words t"
proof -
  have "store_section Map.empty None [] = Map.empty" "open_name None = None"
    by (simp_all add: store_section_def open_name_def truthy_def)
  with words_fold [of "split_lines t" Map.empty None "[]"]
  show ?thesis
    by (simp add: parse_reflection_sections_def sections_by_words_def split: prod.splits)
qed

lemma parse_line_no_header:
  "\<not> endswith (strip l) '':'' \<Longrightarrow> \<exists>items'. parse_line l (Map.empty, None, items) = (Map.empty, None, items')"
  by (simp add: parse_line_def Let_def)

lemma fold_no_header:
  "\<forall>l\<in>set ls. \<not> endswith (strip l) '':'' \<Longrightarrow>
     \<exists>items'. fold parse_line ls (Map.empty, None, items) = (Map.empty, None, items')"
proof (induction ls arbitrary: items)
  case Nil
  then show ?case by simp
next
  case (Cons l ls)
  then obtain items1 where "parse_line l (Map.empty, None, items) = (Map.empty, None, items1)"
    using parse_line_no_header [of l items] by auto
  with Cons show ?case by simp
qed

lemma no_header_empty:
  "\<forall>l\<in>set (split_lines t). \<not> endswith (strip l) '':'' \<Longrightarrow> parse_reflection_sections t = Map.empty"
  using fold_no_header [of "split_lines t" "[]"]
  by (auto simp: parse_reflection_sections_def store_section_def)

text \<open>
  C7, as stated, fails on two kinds of line. A lone colon opens a section with the empty
  name, which \<open>if current_section:\<close> never records, so the items under it are lost. A line
  that starts with the item marker and ends in a colon is taken as a section header, not
  appended to the current section.
\<close>

theorem parse_sections_colon_lines:
  "parse_reflection_sections '':\<newline>- a'' = Map.empty
   \<and> parse_reflection_sections ''FOO:\<newline>- a:'' = [''foo'' \<mapsto> [], ''- a'' \<mapsto> []]"
  by (simp add: parse_reflection_sections_def parse_line_def strip_def is_space_def endswith_def
      startswith_def store_section_def lower_def lower_char_def)

text \<open>
  The characters that \<open>strip\<close> removes and \<open>lower\<close> changes beyond ASCII: a line framed by
  no-break spaces is a header, and a header in capital letters with accents is lower-cased.
\<close>

lemma parse_sections_latin1:
  "parse_reflection_sections
     ([CHR 0xA0] @ ''FOO:'' @ [CHR 0xA0, CHR 0x0A, CHR 0xA0] @ ''- a'') = [''foo'' \<mapsto> [''a'']]
   \<and> parse_reflection_sections ([CHR 0xC9] @ ''T'' @ [CHR 0xC9] @ '':'' @ [CHR 0x85])
       = [[CHR 0xE9] @ ''t'' @ [CHR 0xE9] \<mapsto> []]"
  by (simp add: parse_reflection_sections_def parse_line_def strip_def is_space_def endswith_def
      startswith_def store_section_def lower_def lower_char_def)

text \<open>
  C7, amended. A text is a sequence of code points below 256 (Latin-1), on which \<open>strip\<close>
  and \<open>lower\<close> are those of Python. On every such text the parser computes what the
  specification's wording gives when the colon test is made first and a section with an
  empty name is not recorded; the example of the specification evaluates as stated; a text
  without a line whose stripped form ends in a colon gives the empty mapping.
\<close>

theorem parse_sections_follow_words:
  "parse_reflection_sections t = sections_by_words t
   \<and> parse_reflection_sections ''FOO:\<newline>- a\<newline>- b\<newline>\<newline>BAR:\<newline>- c''
       = [''foo'' \<mapsto> [''a'', ''b''], ''bar'' \<mapsto> [''c'']]
   \<and> ((\<forall>l\<in>set (split_lines t). \<not> endswith (strip l) '':'')
        \<longrightarrow> parse_reflection_sections t = Map.empty)"
proof (intro conjI impI)
  show "parse_reflection_sections t = sections_by_words t" by (rule parse_is_words)
  show "parse_reflection_sections ''FOO:\<newline>- a\<newline>- b\<newline>\<newline>BAR:\<newline>- c''
       = [''foo'' \<mapsto> [''a'', ''b''], ''bar'' \<mapsto> [''c'']]"
    by (simp add: parse_reflection_sections_def parse_line_def strip_def is_space_def endswith_def
        startswith_def store_section_def lower_def lower_char_def)
  assume "\<forall>l\<in>set (split_lines t). \<not> endswith (strip l) '':''"
  then show "parse_reflection_sections t = Map.empty" by (rule no_header_empty)
qed

theorem parse_sections_follow_words_witness:
  "map (\<lambda>l. endswith (strip l) '':'') (split_lines ''hello\<newline>- a'') = [False, False]
   \<and> parse_reflection_sections ''hello\<newline>- a'' = Map.empty
   \<and> sections_by_words ''hello\<newline>- a'' = Map.empty"
proof -
  have h: "\<forall>l\<in>set (split_lines ''hello\<newline>- a''). \<not> endswith (strip l) '':''"
    by (simp add: strip_def is_space_def endswith_def)
  have m: "map (\<lambda>l. endswith (strip l) '':'') (split_lines ''hello\<newline>- a'') = [False, False]"
    by (simp add: strip_def is_space_def endswith_def)
  from parse_sections_follow_words [of "''hello\<newline>- a''"] h
  have "parse_reflection_sections ''hello\<newline>- a'' = Map.empty
      \<and> sections_by_words ''hello\<newline>- a'' = Map.empty"
    by metis
  with m show ?thesis by simp
qed

section \<open>Properties of the orchestrator\<close>

















end
